theory Spec2Isabelle
  imports Complex_Main
begin

section \<open>The transfer engine of \<^verbatim>\<open>file_transfer.py\<close>\<close>

text \<open>
  The class \<^verbatim>\<open>FileTransfer\<close> is embedded as functions on an explicit state.  The state
  holds the fields of the object, the part of Python's object store that the transfer log
  lives in (list objects and dict objects, addressed by references), and a trace of what
  the engine did to its surroundings: the observer callbacks it invoked and the operations
  it issued to the SFTP client and the local file system.

  Python floats are modelled by exact reals.  An exception is modelled by its message
  (\<^verbatim>\<open>str(e)\<close>), the one thing the code inspects.
\<close>

subsection \<open>Strings and paths\<close>

definition lower_char :: "char \<Rightarrow> char" where
  "lower_char c =
     (case map_of (zip ''ABCDEFGHIJKLMNOPQRSTUVWXYZ'' ''abcdefghijklmnopqrstuvwxyz'') c of
        Some l \<Rightarrow> l
      | None \<Rightarrow> c)"

text \<open>\<^verbatim>\<open>str.lower()\<close> on ASCII text.\<close>

definition lower :: "string \<Rightarrow> string" where
  "lower s = map lower_char s"

text \<open>\<^verbatim>\<open>needle in hay\<close> on strings: some suffix of \<open>hay\<close> starts with \<open>needle\<close>.\<close>

fun contains :: "string \<Rightarrow> string \<Rightarrow> bool" where
  "contains needle [] = (needle = [])"
| "contains needle (c # cs) =
     (take (length needle) (c # cs) = needle \<or> contains needle cs)"

text \<open>\<^verbatim>\<open>os.path.basename\<close> (POSIX): everything after the last slash.\<close>

definition basename :: "string \<Rightarrow> string" where
  "basename p = rev (takeWhile (\<lambda>c. c \<noteq> CHR ''/'') (rev p))"

text \<open>\<^verbatim>\<open>os.path.join(a, b)\<close> (POSIX) for two components.\<close>

definition path_join :: "string \<Rightarrow> string \<Rightarrow> string" where
  "path_join a b =
     (if b \<noteq> [] \<and> hd b = CHR ''/'' then b
      else if a = [] \<or> last a = CHR ''/'' then a @ b
      else a @ ''/'' @ b)"

text \<open>\<^verbatim>\<open>.replace("\\", "/")\<close>: every backslash becomes a slash.\<close>

definition replace_backslash :: "string \<Rightarrow> string" where
  "replace_backslash p = map (\<lambda>c. if c = CHR 0x5C then CHR ''/'' else c) p"

definition digit_char :: "nat \<Rightarrow> char" where
  "digit_char d = ''0123456789'' ! d"

text \<open>The decimal rendering of a natural number, as an f-string prints an int.\<close>

function str_nat :: "nat \<Rightarrow> string" where
  "str_nat n = (if n < 10 then [digit_char n] else str_nat (n div 10) @ [digit_char (n mod 10)])"
  by pat_completeness auto
termination
  by (relation "measure (\<lambda>n. n)") auto

declare str_nat.simps [simp del]

definition str_int :: "int \<Rightarrow> string" where
  "str_int i = (if i < 0 then ''-'' @ str_nat (nat (- i)) else str_nat (nat i))"

text \<open>\<^verbatim>\<open>int(x)\<close> on a float truncates towards zero.\<close>

definition py_int :: "real \<Rightarrow> int" where
  "py_int x = (if 0 \<le> x then \<lfloor>x\<rfloor> else \<lceil>x\<rceil>)"

subsection \<open>State\<close>

type_synonym ref = nat

text \<open>An entry of the transfer log: the dict built by \<^verbatim>\<open>log_transfer\<close>.\<close>

record log_entry =
  le_timestamp :: string
  le_action :: string
  le_filename :: string
  le_size :: "nat option"
  le_duration :: "real option"

text \<open>
  What the engine does to the outside, in order: calls of the four observer callbacks, and
  operations on the two file stores.  \<open>Put l r cb\<close> is \<^verbatim>\<open>sftp_client.put(l, r, ...)\<close>,
  with \<open>cb\<close> telling whether the progress hook was passed; \<open>Get\<close> likewise.
\<close>

datatype event =
    Progress real
  | Status string
  | Speed string
  | Eta string
  | Put string string bool
  | Get string string bool
  | Mkdir string
  | Makedirs string

text \<open>
  A callback is absent (\<^verbatim>\<open>None\<close>) or a callable; called with a value, the callable
  returns (\<open>None\<close>) or raises an exception with a message.
\<close>

type_synonym 'a callback = "('a \<Rightarrow> string option) option"

type_synonym job = "string \<times> string"

record state =
  transfer_in_progress :: bool
  transfer_cancelled :: bool
  current_transfer_thread :: "(job list \<times> string) option"
  progress_callback :: "real callback"
  status_callback :: "string callback"
  speed_callback :: "string callback"
  eta_callback :: "string callback"
  transfer_log :: ref
  list_objs :: "ref \<Rightarrow> ref list option"
  dict_objs :: "ref \<Rightarrow> log_entry option"
  next_ref :: ref
  trace :: "event list"
  n_xfer :: nat

text \<open>
  \<open>transfer_log\<close> is the reference held in \<^verbatim>\<open>self.transfer_log\<close>; \<open>list_objs\<close> and
  \<open>dict_objs\<close> are the list and dict objects of the store, \<open>next_ref\<close> the next unused
  reference.  \<open>n_xfer\<close> counts the transfers that reached the SFTP client, and selects the
  behaviour of the transport for the next one.
\<close>

text \<open>\<^verbatim>\<open>__init__\<close>: an idle engine with no callbacks and an empty log list.\<close>

definition init :: state where
  "init = \<lparr> transfer_in_progress = False, transfer_cancelled = False,
            current_transfer_thread = None,
            progress_callback = None, status_callback = None,
            speed_callback = None, eta_callback = None,
            transfer_log = 0, list_objs = (\<lambda>r. if r = 0 then Some [] else None),
            dict_objs = (\<lambda>r. None), next_ref = 1, trace = [], n_xfer = 0 \<rparr>"

definition set_progress_callbacks ::
  "real callback \<Rightarrow> string callback \<Rightarrow> string callback \<Rightarrow> string callback \<Rightarrow> state \<Rightarrow> state" where
  "set_progress_callbacks progress_cb status_cb speed_cb eta_cb s =
     s\<lparr> progress_callback := progress_cb, status_callback := status_cb,
        speed_callback := speed_cb, eta_callback := eta_cb \<rparr>"

definition is_transfer_in_progress :: "state \<Rightarrow> bool" where
  "is_transfer_in_progress s = transfer_in_progress s"

definition cancel_transfer :: "state \<Rightarrow> state" where
  "cancel_transfer s = s\<lparr> transfer_cancelled := True \<rparr>"

subsection \<open>The transfer log\<close>

text \<open>The list object at a reference (a reference held by the program is never dangling).\<close>

definition list_at :: "state \<Rightarrow> ref \<Rightarrow> ref list" where
  "list_at s r = (case list_objs s r of Some xs \<Rightarrow> xs | None \<Rightarrow> [])"

text \<open>
  \<^verbatim>\<open>log_transfer\<close>: build the dict, append it to the list in place, and when the list
  has more than 100 elements rebind the field to a new list, the slice \<^verbatim>\<open>[-100:]\<close>.
  The timestamp \<^verbatim>\<open>datetime.now().strftime(...)\<close> is an argument.
\<close>

definition log_transfer ::
  "string \<Rightarrow> string \<Rightarrow> nat option \<Rightarrow> real option \<Rightarrow> string \<Rightarrow> state \<Rightarrow> state" where
  "log_transfer action filename size_opt duration timestamp s =
     (let log_entry = \<lparr> le_timestamp = timestamp, le_action = action, le_filename = filename,
                        le_size = size_opt, le_duration = duration \<rparr>;
          d = next_ref s;
          s1 = s\<lparr> dict_objs := (dict_objs s)(d := Some log_entry), next_ref := Suc d \<rparr>;
          l = transfer_log s1;
          s2 = s1\<lparr> list_objs := (list_objs s1)(l := Some (list_at s1 l @ [d])) \<rparr>
      in if length (list_at s2 l) > 100
         then let l' = next_ref s2
              in s2\<lparr> list_objs := (list_objs s2)(l' := Some (drop (length (list_at s2 l) - 100) (list_at s2 l))),
                     next_ref := Suc l', transfer_log := l' \<rparr>
         else s2)"

text \<open>\<^verbatim>\<open>get_transfer_log\<close>: \<^verbatim>\<open>list.copy()\<close> makes a new list object holding the same
  references; the reference of the new list is returned.\<close>

definition get_transfer_log :: "state \<Rightarrow> ref \<times> state" where
  "get_transfer_log s =
     (let r = next_ref s
      in (r, s\<lparr> list_objs := (list_objs s)(r := Some (list_at s (transfer_log s))), next_ref := Suc r \<rparr>))"

text \<open>\<^verbatim>\<open>clear_transfer_log\<close>: \<^verbatim>\<open>list.clear()\<close> empties the list object in place.\<close>

definition clear_transfer_log :: "state \<Rightarrow> state" where
  "clear_transfer_log s = s\<lparr> list_objs := (list_objs s)(transfer_log s := Some []) \<rparr>"

text \<open>What a reader of the list at \<open>r\<close> sees: the dict behind each reference.\<close>

definition read_list :: "state \<Rightarrow> ref \<Rightarrow> log_entry option list" where
  "read_list s r = map (dict_objs s) (list_at s r)"

text \<open>What a call of \<^verbatim>\<open>get_transfer_log\<close> made now would show.\<close>

definition observe_log :: "state \<Rightarrow> log_entry option list" where
  "observe_log s = (case get_transfer_log s of (r, s') \<Rightarrow> read_list s' r)"

text \<open>The caller's mutations: of a list object (any change of its content), of a dict object.\<close>

definition mutate_list :: "ref \<Rightarrow> (ref list \<Rightarrow> ref list) \<Rightarrow> state \<Rightarrow> state" where
  "mutate_list r f s = s\<lparr> list_objs := (list_objs s)(r := Some (f (list_at s r))) \<rparr>"

definition mutate_dict :: "ref \<Rightarrow> (log_entry \<Rightarrow> log_entry) \<Rightarrow> state \<Rightarrow> state" where
  "mutate_dict d g s = s\<lparr> dict_objs := (dict_objs s)(d := map_option g (dict_objs s d)) \<rparr>"

text \<open>
  The store is well formed when every reference in use lies below \<open>next_ref\<close>, so that a
  newly allocated object is distinct from the objects the log is made of.
\<close>

definition wf :: "state \<Rightarrow> bool" where
  "wf s = (transfer_log s < next_ref s \<and> list_all (\<lambda>d. d < next_ref s) (list_at s (transfer_log s)))"

text \<open>The bound of the log as a function on sequences: the last 100 elements.\<close>

definition last100 :: "'a list \<Rightarrow> 'a list" where
  "last100 xs = drop (length xs - 100) xs"

text \<open>One request to log a transfer: action, file name, size, duration, timestamp.\<close>

type_synonym log_req = "string \<times> string \<times> nat option \<times> real option \<times> string"

definition entry_of :: "log_req \<Rightarrow> log_entry" where
  "entry_of q = (case q of (a, f, sz, du, ts) \<Rightarrow>
     \<lparr> le_timestamp = ts, le_action = a, le_filename = f, le_size = sz, le_duration = du \<rparr>)"

definition log_req :: "log_req \<Rightarrow> state \<Rightarrow> state" where
  "log_req q s = (case q of (a, f, sz, du, ts) \<Rightarrow> log_transfer a f sz du ts s)"

subsection \<open>Submitting a batch\<close>

text \<open>
  \<^verbatim>\<open>transfer_files\<close>: refuse when a batch is in progress; otherwise create and start the
  worker thread and return \<^verbatim>\<open>True\<close>.  The body of the thread is \<open>transfer_thread\<close> below; it
  runs after the call has returned.
\<close>

definition transfer_files :: "job list \<Rightarrow> string \<Rightarrow> state \<Rightarrow> bool \<times> state" where
  "transfer_files file_list direction s =
     (if transfer_in_progress s then (False, s)
      else (True, s\<lparr> current_transfer_thread := Some (file_list, direction) \<rparr>))"


subsection \<open>The surroundings of the engine\<close>

text \<open>
  The engine reads the local file system through \<^verbatim>\<open>os\<close> and the remote one through the
  SFTP client of the connection manager.  A path names a file-system object or nothing.
  A local object is a file with its size, or a directory with its size and its entries in
  the order \<^verbatim>\<open>os.listdir\<close> yields them.  A remote object carries the attributes that
  \<^verbatim>\<open>stat\<close> and \<^verbatim>\<open>listdir_attr\<close> report (\<^verbatim>\<open>st_mode\<close>, \<^verbatim>\<open>st_size\<close>), and, when it can be
  listed, its entries.
\<close>

datatype node = File nat | Dir nat "(string \<times> node) list"

datatype rnode = RFile nat nat | RDir nat nat "(string \<times> rnode) list"

text \<open>\<^verbatim>\<open>os.path.getsize\<close> of an existing object.\<close>

fun getsize :: "node \<Rightarrow> nat" where
  "getsize (File sz) = sz"
| "getsize (Dir sz items) = sz"

text \<open>\<^verbatim>\<open>os.path.isdir\<close>: false for a path that names nothing.\<close>

fun isdir :: "node option \<Rightarrow> bool" where
  "isdir (Some (Dir sz items)) = True"
| "isdir other = False"

fun st_mode :: "rnode \<Rightarrow> nat" where
  "st_mode (RFile m sz) = m"
| "st_mode (RDir m sz items) = m"

fun st_size :: "rnode \<Rightarrow> nat" where
  "st_size (RFile m sz) = sz"
| "st_size (RDir m sz items) = sz"

text \<open>
  How the transport behaves during one \<^verbatim>\<open>put\<close> or \<^verbatim>\<open>get\<close>: at each chunk boundary it
  calls the progress hook with the cumulative byte count.  A chunk also records the clock
  reading \<^verbatim>\<open>time.time()\<close> taken inside the hook, and whether the caller's thread has called
  \<^verbatim>\<open>cancel_transfer\<close> since the previous checkpoint.
\<close>

record chunk =
  c_bytes :: nat
  c_now :: real
  c_cancel :: bool

text \<open>
  \<open>s_start\<close> is the clock reading taken before the transfer starts; \<open>s_outcome\<close> is the
  exception the transport itself raises after the chunks (\<open>None\<close>: it returns);
  \<open>s_retry\<close> is the outcome of a second call made without the hook.
\<close>

record script =
  s_start :: real
  s_chunks :: "chunk list"
  s_outcome :: "string option"
  s_retry :: "string option"

text \<open>
  What surrounds the processing of one job of a batch: whether \<^verbatim>\<open>cancel_transfer\<close> was
  called before the check at the head of the loop, or between the end of the transfer and
  the check before logging; the two clock readings; the timestamp of the log entry.
\<close>

record job_env =
  j_cancel_before :: bool
  j_start :: real
  j_cancel_after :: bool
  j_end :: real
  j_stamp :: string

text \<open>
  The connection manager's fields, the two file systems, the transport's behaviour for the
  \<open>n\<close>-th transfer, the surroundings of the \<open>i\<close>-th job, a late cancel request arriving
  after the last job, and Python's rendering of floats (\<^verbatim>\<open>str(x)\<close> and the format
  \<^verbatim>\<open>.1f\<close>), which the engine uses and does not define.
\<close>

record env =
  is_connected :: bool
  ssh_client :: bool
  sftp_client :: bool
  local_fs :: "string \<Rightarrow> node option"
  remote_fs :: "string \<Rightarrow> rnode option"
  scripts :: "nat \<Rightarrow> script"
  job_envs :: "nat \<Rightarrow> job_env"
  cancel_at_end :: bool
  str_float :: "real \<Rightarrow> string"
  fmt_1f :: "real \<Rightarrow> string"

text \<open>\<^verbatim>\<open>ConnectionManager.is_connected_to_server\<close> and \<^verbatim>\<open>get_sftp_client\<close> (is there one).\<close>

definition is_connected_to_server :: "env \<Rightarrow> bool" where
  "is_connected_to_server env = (is_connected env \<and> ssh_client env \<and> sftp_client env)"

definition get_sftp_client :: "env \<Rightarrow> bool" where
  "get_sftp_client env = (if is_connected env then sftp_client env else False)"

subsection \<open>Helpers of the engine\<close>

text \<open>\<^verbatim>\<open>get_file_size\<close>: every exception becomes \<^verbatim>\<open>None\<close>.\<close>

definition get_file_size :: "env \<Rightarrow> string \<Rightarrow> bool \<Rightarrow> nat option" where
  "get_file_size env path is_remote =
     (if is_remote
      then (if get_sftp_client env then map_option st_size (remote_fs env path) else None)
      else map_option getsize (local_fs env path))"

text \<open>\<^verbatim>\<open>is_directory\<close>: the bit \<^verbatim>\<open>0o040000\<close> of the mode.\<close>

definition is_directory :: "nat \<Rightarrow> bool" where
  "is_directory mode = (and mode 16384 \<noteq> 0)"

definition format_size :: "env \<Rightarrow> real \<Rightarrow> string" where
  "format_size env sz =
     (if sz = 0 then ''0 B''
      else if sz < 1024 then str_float env sz @ '' B''
      else if sz < 1024 ^ 2 then fmt_1f env (sz / 1024) @ '' KB''
      else if sz < 1024 ^ 3 then fmt_1f env (sz / 1024 ^ 2) @ '' MB''
      else fmt_1f env (sz / 1024 ^ 3) @ '' GB'')"

text \<open>Python's \<^verbatim>\<open>x // y\<close> and \<^verbatim>\<open>x % y\<close> on floats, for positive \<open>y\<close>.\<close>

definition floor_div :: "real \<Rightarrow> real \<Rightarrow> real" where
  "floor_div x y = of_int \<lfloor>x / y\<rfloor>"

definition py_mod :: "real \<Rightarrow> real \<Rightarrow> real" where
  "py_mod x y = x - y * of_int \<lfloor>x / y\<rfloor>"

definition format_time :: "real \<Rightarrow> string" where
  "format_time seconds =
     (if seconds < 60 then str_int (py_int seconds) @ ''s''
      else if seconds < 3600
        then str_int (py_int (floor_div seconds 60)) @ ''m '' @ str_int (py_int (py_mod seconds 60)) @ ''s''
      else str_int (py_int (floor_div seconds 3600)) @ ''h ''
             @ str_int (py_int (floor_div (py_mod seconds 3600) 60)) @ ''m'')"

subsection \<open>Calling the observer\<close>

text \<open>
  A computation returns a value or raises, and leaves a state either way.
\<close>

type_synonym 'a result = "(string + 'a) \<times> state"

text \<open>Call a callback: the call is recorded, then it returns or raises.\<close>

definition invoke :: "('a \<Rightarrow> event) \<Rightarrow> ('a \<Rightarrow> string option) \<Rightarrow> 'a \<Rightarrow> state \<Rightarrow> unit result" where
  "invoke mk f v s =
     (let s' = s\<lparr> trace := trace s @ [mk v] \<rparr>
      in case f v of None \<Rightarrow> (Inr (), s') | Some msg \<Rightarrow> (Inl msg, s'))"

text \<open>\<^verbatim>\<open>if self.cb: self.cb(v)\<close>\<close>

definition call_opt :: "('a \<Rightarrow> event) \<Rightarrow> 'a callback \<Rightarrow> 'a \<Rightarrow> state \<Rightarrow> unit result" where
  "call_opt mk cb v s = (case cb of None \<Rightarrow> (Inr (), s) | Some f \<Rightarrow> invoke mk f v s)"

text \<open>One computation after another: an exception of the first skips the second.\<close>

definition seq :: "'a result \<Rightarrow> ('a \<Rightarrow> state \<Rightarrow> 'b result) \<Rightarrow> 'b result" where
  "seq m g = (case m of (Inl e, s') \<Rightarrow> (Inl e, s') | (Inr x, s') \<Rightarrow> g x s')"

subsection \<open>Transferring one file\<close>

text \<open>
  The nested function \<^verbatim>\<open>callback\<close> of \<^verbatim>\<open>upload_file\<close>; the one of \<^verbatim>\<open>download_file\<close> is
  the same text with \<^verbatim>\<open>downloaded\<close> for \<^verbatim>\<open>uploaded\<close>.  It is given here in three parts.

  Lines 108 to 110: the percentage.  The division \<^verbatim>\<open>uploaded / file_size\<close> raises
  \<^verbatim>\<open>ZeroDivisionError\<close> when the size is 0.
\<close>

definition report_progress :: "nat \<Rightarrow> nat \<Rightarrow> state \<Rightarrow> unit result" where
  "report_progress file_size uploaded s =
     (case progress_callback s of
        None \<Rightarrow> (Inr (), s)
      | Some f \<Rightarrow>
          if file_size = 0 then (Inl ''division by zero'', s)
          else invoke Progress f (real uploaded / real file_size * 100) s)"

text \<open>Lines 115 to 124: speed and remaining time, inside \<^verbatim>\<open>if elapsed > 0\<close>.\<close>

definition report_speed :: "env \<Rightarrow> nat \<Rightarrow> nat \<Rightarrow> real \<Rightarrow> state \<Rightarrow> unit result" where
  "report_speed env file_size uploaded elapsed s =
     (let speed = real uploaded / elapsed;
          speed_str = format_size env speed @ ''/s''
      in seq (call_opt Speed (speed_callback s) speed_str s)
           (\<lambda>u s2. case eta_callback s2 of
                      None \<Rightarrow> (Inr (), s2)
                    | Some f \<Rightarrow>
                        let eta = (if speed > 0
                                   then (real file_size - real uploaded) / speed else 0)
                        in invoke Eta f (''ETA: '' @ format_time eta) s2))"

text \<open>
  The hook as a whole.  The state it starts in is the one left by the previous checkpoint,
  with the cancel flag set if the caller has asked for cancellation since.
\<close>

definition callback :: "env \<Rightarrow> nat \<Rightarrow> real \<Rightarrow> chunk \<Rightarrow> state \<Rightarrow> unit result" where
  "callback env file_size start_time c s0 =
     (let s = (if c_cancel c then cancel_transfer s0 else s0)
      in if transfer_cancelled s then (Inl ''Transfer cancelled / Transfer iptal edildi'', s)
         else
           let uploaded = c_bytes c
           in seq (report_progress file_size uploaded s)
                (\<lambda>u s1. let elapsed = c_now c - start_time
                         in if elapsed > 0 then report_speed env file_size uploaded elapsed s1
                            else (Inr (), s1)))"

text \<open>The transport calls the hook chunk by chunk; an exception of the hook ends the transfer.\<close>

fun run_chunks :: "env \<Rightarrow> nat \<Rightarrow> real \<Rightarrow> chunk list \<Rightarrow> state \<Rightarrow> unit result" where
  "run_chunks env file_size start_time [] s = (Inr (), s)"
| "run_chunks env file_size start_time (c # cs) s =
     seq (callback env file_size start_time c s)
       (\<lambda>u s'. run_chunks env file_size start_time cs s')"

text \<open>\<^verbatim>\<open>sftp_client.put\<close> or \<^verbatim>\<open>get\<close> with the hook (\<open>op\<close> is the recorded operation).\<close>

definition sftp_transfer :: "env \<Rightarrow> event \<Rightarrow> nat \<Rightarrow> script \<Rightarrow> state \<Rightarrow> unit result" where
  "sftp_transfer env op file_size scr s =
     seq (run_chunks env file_size (s_start scr) (s_chunks scr) (s\<lparr> trace := trace s @ [op] \<rparr>))
       (\<lambda>u s'. case s_outcome scr of None \<Rightarrow> (Inr (), s') | Some e \<Rightarrow> (Inl e, s'))"

text \<open>\<^verbatim>\<open>sftp_client.put\<close> or \<^verbatim>\<open>get\<close> without the hook.\<close>

definition sftp_transfer_plain :: "event \<Rightarrow> script \<Rightarrow> state \<Rightarrow> unit result" where
  "sftp_transfer_plain op scr s =
     (let s' = s\<lparr> trace := trace s @ [op] \<rparr>
      in case s_retry scr of None \<Rightarrow> (Inr (), s') | Some e \<Rightarrow> (Inl e, s'))"

text \<open>
  The body shared by \<^verbatim>\<open>upload_file\<close> and \<^verbatim>\<open>download_file\<close> from the clock reading on:
  transfer with the hook; on an exception whose lower-cased message contains
  \<^verbatim>\<open>callback\<close>, transfer again without the hook and report 100; any other exception, and any
  exception of the second attempt, reaches the outer handler, which returns \<^verbatim>\<open>False\<close>.
  \<open>mk\<close> builds the recorded operation from the flag "with hook".
\<close>

definition transfer_body :: "env \<Rightarrow> (bool \<Rightarrow> event) \<Rightarrow> nat \<Rightarrow> state \<Rightarrow> bool \<times> state" where
  "transfer_body env mk file_size s =
     (let scr = scripts env (n_xfer s);
          s0 = s\<lparr> n_xfer := Suc (n_xfer s) \<rparr>
      in case sftp_transfer env (mk True) file_size scr s0 of
           (Inr u, s1) \<Rightarrow> (True, s1)
         | (Inl e, s1) \<Rightarrow>
             if contains ''callback'' (lower e) then
               (case sftp_transfer_plain (mk False) scr s1 of
                  (Inl e2, s2) \<Rightarrow> (False, s2)
                | (Inr u, s2) \<Rightarrow>
                    (case call_opt Progress (progress_callback s2) 100 s2 of
                       (Inl e3, s3) \<Rightarrow> (False, s3)
                     | (Inr u, s3) \<Rightarrow> (True, s3)))
             else (False, s1))"

text \<open>
  \<^verbatim>\<open>upload_file\<close>.  The argument \<open>src\<close> is what \<open>local_path\<close> names;
  \<^verbatim>\<open>os.path.getsize\<close> raises when it names nothing.
\<close>

definition upload_file :: "env \<Rightarrow> node option \<Rightarrow> string \<Rightarrow> string \<Rightarrow> state \<Rightarrow> bool \<times> state" where
  "upload_file env src local_path remote_path s =
     (if \<not> is_connected_to_server env then (False, s)
      else if \<not> get_sftp_client env then (False, s)
      else case src of
             None \<Rightarrow> (False, s)
           | Some nd \<Rightarrow> transfer_body env (Put local_path remote_path) (getsize nd) s)"

text \<open>
  \<^verbatim>\<open>download_file\<close>.  The argument \<open>src\<close> is what \<open>remote_path\<close> names;
  \<^verbatim>\<open>sftp_client.stat\<close> raises when it names nothing.
\<close>

definition download_file :: "env \<Rightarrow> rnode option \<Rightarrow> string \<Rightarrow> string \<Rightarrow> state \<Rightarrow> bool \<times> state" where
  "download_file env src remote_path local_path s =
     (if \<not> is_connected_to_server env then (False, s)
      else if \<not> get_sftp_client env then (False, s)
      else case src of
             None \<Rightarrow> (False, s)
           | Some nd \<Rightarrow> transfer_body env (Get remote_path local_path) (st_size nd) s)"

subsection \<open>Transferring a directory\<close>

text \<open>
  \<^verbatim>\<open>upload_directory\<close>, by recursion on the directory that \<open>local_path\<close> names.  The
  outcome of \<^verbatim>\<open>mkdir\<close> is ignored by the code; \<^verbatim>\<open>os.listdir\<close> raises on a file.  The results
  of the calls made for the entries are dropped, as in the source.
\<close>

fun upload_directory :: "env \<Rightarrow> node \<Rightarrow> string \<Rightarrow> string \<Rightarrow> state \<Rightarrow> bool \<times> state"
and upload_items :: "env \<Rightarrow> (string \<times> node) list \<Rightarrow> string \<Rightarrow> string \<Rightarrow> state \<Rightarrow> state" where
  "upload_directory env (File sz) local_path remote_path s =
     (if \<not> is_connected_to_server env then (False, s)
      else if \<not> get_sftp_client env then (False, s)
      else (False, s\<lparr> trace := trace s @ [Mkdir remote_path] \<rparr>))"
| "upload_directory env (Dir sz items) local_path remote_path s =
     (if \<not> is_connected_to_server env then (False, s)
      else if \<not> get_sftp_client env then (False, s)
      else (True, upload_items env items local_path remote_path
                    (s\<lparr> trace := trace s @ [Mkdir remote_path] \<rparr>)))"
| "upload_items env [] local_path remote_path s = s"
| "upload_items env ((item, nd) # rest) local_path remote_path s =
     (let local_item_path = path_join local_path item;
          remote_item_path = replace_backslash (path_join remote_path item)
      in upload_items env rest local_path remote_path
           (case nd of
              Dir sz items \<Rightarrow> snd (upload_directory env nd local_item_path remote_item_path s)
            | File sz \<Rightarrow> snd (upload_file env (Some nd) local_item_path remote_item_path s)))"

text \<open>
  \<^verbatim>\<open>download_directory\<close>, by recursion on what \<open>remote_path\<close> names; \<^verbatim>\<open>os.makedirs\<close> is
  taken to succeed, \<^verbatim>\<open>listdir_attr\<close> raises on an object that cannot be listed.
\<close>

fun download_directory :: "env \<Rightarrow> rnode \<Rightarrow> string \<Rightarrow> string \<Rightarrow> state \<Rightarrow> bool \<times> state"
and download_items :: "env \<Rightarrow> (string \<times> rnode) list \<Rightarrow> string \<Rightarrow> string \<Rightarrow> state \<Rightarrow> state" where
  "download_directory env (RFile m sz) remote_path local_path s =
     (if \<not> is_connected_to_server env then (False, s)
      else if \<not> get_sftp_client env then (False, s)
      else (False, s\<lparr> trace := trace s @ [Makedirs local_path] \<rparr>))"
| "download_directory env (RDir m sz items) remote_path local_path s =
     (if \<not> is_connected_to_server env then (False, s)
      else if \<not> get_sftp_client env then (False, s)
      else (True, download_items env items remote_path local_path
                    (s\<lparr> trace := trace s @ [Makedirs local_path] \<rparr>)))"
| "download_items env [] remote_path local_path s = s"
| "download_items env ((filename, nd) # rest) remote_path local_path s =
     (let remote_item_path = replace_backslash (path_join remote_path filename);
          local_item_path = path_join local_path filename
      in download_items env rest remote_path local_path
           (if is_directory (st_mode nd)
            then snd (download_directory env nd remote_item_path local_item_path s)
            else snd (download_file env (Some nd) remote_item_path local_item_path s)))"

subsection \<open>The worker thread of a batch\<close>

text \<open>
  Lines 323 to 329 of \<^verbatim>\<open>transfer_files\<close>: which transfer function a job goes to.
\<close>

definition dispatch :: "env \<Rightarrow> string \<Rightarrow> string \<Rightarrow> string \<Rightarrow> state \<Rightarrow> bool \<times> state" where
  "dispatch env direction source destination s =
     (if direction = ''upload'' then
        (case local_fs env source of
           Some (Dir sz items) \<Rightarrow> upload_directory env (Dir sz items) source destination s
         | src \<Rightarrow> upload_file env src source destination s)
      else download_file env (remote_fs env source) source destination s)"

text \<open>
  The inner \<^verbatim>\<open>try\<close> of the loop: transfer, then log when the transfer succeeded and no
  cancellation is pending.  None of the calls raises (the transfer functions catch every
  exception themselves), so the handler of this \<^verbatim>\<open>try\<close> is never entered.
\<close>

definition transfer_job :: "env \<Rightarrow> string \<Rightarrow> job_env \<Rightarrow> string \<Rightarrow> string \<Rightarrow> state \<Rightarrow> state" where
  "transfer_job env direction je source destination s =
     (case dispatch env direction source destination s of
        (success, s1) \<Rightarrow>
          let s2 = (if j_cancel_after je then cancel_transfer s1 else s1)
          in if success \<and> \<not> transfer_cancelled s2 then
               let duration = j_end je - j_start je;
                   file_size = get_file_size env source (direction = ''download'')
               in log_transfer direction (basename source) file_size (Some duration) (j_stamp je) s2
             else s2)"

text \<open>The status line announcing job \<open>i\<close> (counted from 0) of \<open>total_files\<close>.\<close>

definition transferring :: "nat \<Rightarrow> nat \<Rightarrow> string \<Rightarrow> string" where
  "transferring i total_files source =
     ''Transferring ('' @ str_nat (i + 1) @ ''/'' @ str_nat total_files @ ''): '' @ basename source"

text \<open>
  The \<^verbatim>\<open>for\<close> loop over the jobs from index \<open>i\<close> on.  It ends normally at the end of the
  list or at the \<^verbatim>\<open>break\<close>, and raises when a callback called outside the inner \<^verbatim>\<open>try\<close>
  raises.
\<close>

fun jobs_loop :: "env \<Rightarrow> string \<Rightarrow> nat \<Rightarrow> nat \<Rightarrow> job list \<Rightarrow> state \<Rightarrow> unit result" where
  "jobs_loop env direction total_files i [] s = (Inr (), s)"
| "jobs_loop env direction total_files i ((source, destination) # rest) s0 =
     (let je = job_envs env i;
          s = (if j_cancel_before je then cancel_transfer s0 else s0)
      in if transfer_cancelled s then (Inr (), s)
         else
           seq (call_opt Status (status_callback s) (transferring i total_files source) s)
             (\<lambda>u s1.
                let s2 = transfer_job env direction je source destination s1
                in seq (if \<not> transfer_cancelled s2
                        then call_opt Progress (progress_callback s2)
                               (real (i + 1) / real total_files * 100) s2
                        else (Inr (), s2))
                     (\<lambda>u s3. jobs_loop env direction total_files (Suc i) rest s3)))"

text \<open>The final status, after the loop has ended normally.\<close>

definition final_status :: "env \<Rightarrow> state \<Rightarrow> unit result" where
  "final_status env s0 =
     (let s = (if cancel_at_end env then cancel_transfer s0 else s0)
      in call_opt Status (status_callback s)
           (if transfer_cancelled s then ''Transfer cancelled'' else ''Transfer completed'') s)"

text \<open>
  \<^verbatim>\<open>transfer_thread\<close>: the body of the worker.  An exception of the loop or of the final
  status is caught (and printed); the \<^verbatim>\<open>finally\<close> clause resets both flags.
\<close>

definition transfer_thread :: "env \<Rightarrow> job list \<Rightarrow> string \<Rightarrow> state \<Rightarrow> state" where
  "transfer_thread env file_list direction s =
     (let s1 = s\<lparr> transfer_in_progress := True, transfer_cancelled := False \<rparr>;
          total_files = length file_list;
          s3 = (case jobs_loop env direction total_files 0 file_list s1 of
                  (Inl e, s2) \<Rightarrow> s2
                | (Inr u, s2) \<Rightarrow> snd (final_status env s2))
      in s3\<lparr> transfer_in_progress := False, transfer_cancelled := False \<rparr>)"

subsection \<open>Reading a trace\<close>

fun is_progress :: "event \<Rightarrow> bool" where
  "is_progress (Progress p) = True"
| "is_progress e = False"

fun is_status :: "event \<Rightarrow> bool" where
  "is_status (Status m) = True"
| "is_status e = False"

fun is_speed_or_eta :: "event \<Rightarrow> bool" where
  "is_speed_or_eta (Speed m) = True"
| "is_speed_or_eta (Eta m) = True"
| "is_speed_or_eta e = False"

text \<open>The operations on the two file stores.\<close>

fun is_operation :: "event \<Rightarrow> bool" where
  "is_operation (Put l r cb) = True"
| "is_operation (Get r l cb) = True"
| "is_operation (Mkdir r) = True"
| "is_operation (Makedirs l) = True"
| "is_operation e = False"

subsection \<open>What a transfer leaves alone\<close>

text \<open>
  Between two states of which the second comes from the first by transfer functions: the
  fields of the engine other than the cancel flag are the same, the log and the store are
  the same, a set cancel flag stays set, no status was emitted, and (when no cancel request
  arrived in between, \<open>quiet\<close>) the cancel flag is the same.
\<close>

definition fr :: "bool \<Rightarrow> state \<Rightarrow> state \<Rightarrow> bool" where
  "fr quiet s s' \<longleftrightarrow>
     transfer_in_progress s' = transfer_in_progress s \<and>
     current_transfer_thread s' = current_transfer_thread s \<and>
     progress_callback s' = progress_callback s \<and>
     status_callback s' = status_callback s \<and>
     speed_callback s' = speed_callback s \<and>
     eta_callback s' = eta_callback s \<and>
     transfer_log s' = transfer_log s \<and>
     list_objs s' = list_objs s \<and>
     dict_objs s' = dict_objs s \<and>
     next_ref s' = next_ref s \<and>
     (transfer_cancelled s \<longrightarrow> transfer_cancelled s') \<and>
     (quiet \<longrightarrow> transfer_cancelled s' = transfer_cancelled s) \<and>
     filter is_status (trace s') = filter is_status (trace s)"


text \<open>No cancel request arrives at any chunk of any transfer.\<close>

definition no_chunk_cancel :: "env \<Rightarrow> bool" where
  "no_chunk_cancel env \<longleftrightarrow> (\<forall>n. \<forall>c\<in>set (s_chunks (scripts env n)). \<not> c_cancel c)"

text \<open>
  Between two states of which the second comes from the first by processing jobs: the
  batch flag, the thread and the callbacks are the same and a set cancel flag stays set.
\<close>

definition jr :: "state \<Rightarrow> state \<Rightarrow> bool" where
  "jr s s' \<longleftrightarrow>
     transfer_in_progress s' = transfer_in_progress s \<and>
     current_transfer_thread s' = current_transfer_thread s \<and>
     progress_callback s' = progress_callback s \<and>
     status_callback s' = status_callback s \<and>
     speed_callback s' = speed_callback s \<and>
     eta_callback s' = eta_callback s \<and>
     (transfer_cancelled s \<longrightarrow> transfer_cancelled s')"

text \<open>The second trace extends the first by events that all satisfy \<open>P\<close>.\<close>

definition ext :: "(event \<Rightarrow> bool) \<Rightarrow> state \<Rightarrow> state \<Rightarrow> bool" where
  "ext P s s' \<longleftrightarrow> (\<exists>evs. trace s' = trace s @ evs \<and> list_all P evs)"




text \<open>A callback that is absent, or returns whatever it is called with.\<close>

definition never_raises :: "'a callback \<Rightarrow> bool" where
  "never_raises cb \<longleftrightarrow> (case cb of None \<Rightarrow> True | Some f \<Rightarrow> \<forall>v. f v = None)"

text \<open>No cancel request arrives at any point of any batch.\<close>

definition no_cancel :: "env \<Rightarrow> bool" where
  "no_cancel env \<longleftrightarrow>
     no_chunk_cancel env \<and> \<not> cancel_at_end env \<and>
     (\<forall>i. \<not> j_cancel_before (job_envs env i) \<and> \<not> j_cancel_after (job_envs env i))"

text \<open>
  The log of the second state has at most \<open>n\<close> entries more than the log of the first, and
  every entry of it that the first log does not have carries the base name of the source
  of one of the jobs; the store of the second state is well formed.
\<close>

definition grown :: "job list \<Rightarrow> nat \<Rightarrow> state \<Rightarrow> state \<Rightarrow> bool" where
  "grown jobs n s s' \<longleftrightarrow>
     wf s' \<and> length (observe_log s') \<le> length (observe_log s) + n \<and>
     (\<forall>e \<in> set (observe_log s').
        e \<in> set (observe_log s) \<or>
        (\<exists>(source, destination) \<in> set jobs. map_option le_filename e = Some (basename source)))"

subsection \<open>Concrete inputs\<close>

text \<open>A hundred and one requests to log an upload, told apart by the size.\<close>

definition hundred_and_one :: "log_req list" where
  "hundred_and_one =
     map (\<lambda>i. (''upload'', ''a.txt'', Some i, None, ''2024-01-01 00:00:00'')) [0..<101]"

text \<open>A new engine after one logged upload.\<close>

definition one_entry :: state where
  "one_entry = log_transfer ''upload'' ''a.txt'' (Some 2048) (Some 1) ''2024-01-01 00:00:00'' init"

text \<open>A transport that calls no hook and returns; a job during which nothing happens.\<close>

definition silent :: script where
  "silent = \<lparr> s_start = 0, s_chunks = [], s_outcome = None, s_retry = None \<rparr>"

definition calm :: job_env where
  "calm = \<lparr> j_cancel_before = False, j_start = 0, j_cancel_after = False, j_end = 1,
            j_stamp = ''2024-01-01 00:00:00'' \<rparr>"

text \<open>A remote directory (mode \<^verbatim>\<open>0o040755\<close>) with a file (mode \<^verbatim>\<open>0o100644\<close>) and an empty directory.\<close>

definition remote_d :: rnode where
  "remote_d = RDir 16877 4096 [(''f.bin'', RFile 33188 100), (''sub'', RDir 16877 4096 [])]"

text \<open>
  A connected engine.  Locally: a file of 2048 bytes, an empty file, and a directory with a
  file and an empty subdirectory.  On the remote side: the directory above, a file and an
  empty file.
\<close>

definition pi_env :: env where
  "pi_env = \<lparr> is_connected = True, ssh_client = True, sftp_client = True,
       local_fs = (\<lambda>p. if p = ''a.txt'' then Some (File 2048)
                        else if p = ''empty.txt'' then Some (File 0)
                        else if p = ''d'' then Some (Dir 4096 [(''f.bin'', File 100), (''sub'', Dir 4096 [])])
                        else None),
       remote_fs = (\<lambda>p. if p = ''/remote/d'' then Some remote_d
                         else if p = ''/remote/a.txt'' then Some (RFile 33188 2048)
                         else if p = ''/remote/empty.txt'' then Some (RFile 33188 0)
                         else None),
       scripts = (\<lambda>n. silent), job_envs = (\<lambda>i. calm), cancel_at_end = False,
       str_float = (\<lambda>x. str_int \<lfloor>x\<rfloor>), fmt_1f = (\<lambda>x. str_int \<lfloor>x\<rfloor>) \<rparr>"

text \<open>An engine with all four callbacks set, none of which ever raises.\<close>

definition watched :: state where
  "watched = set_progress_callbacks (Some (\<lambda>p. None)) (Some (\<lambda>m. None))
               (Some (\<lambda>m. None)) (Some (\<lambda>m. None)) init"

text \<open>The transport reports one chunk boundary at 0 bytes, one second after the start.\<close>

definition one_chunk :: script where
  "one_chunk = \<lparr> s_start = 0, s_chunks = [\<lparr> c_bytes = 0, c_now = 1, c_cancel = False \<rparr>],
                 s_outcome = None, s_retry = None \<rparr>"

text \<open>The transport fails (as \<^verbatim>\<open>get\<close> does on a directory).\<close>

definition failing :: script where
  "failing = \<lparr> s_start = 0, s_chunks = [], s_outcome = Some ''Failure'', s_retry = None \<rparr>"

text \<open>A cancel request arrives before the second job is started.\<close>

definition cancel_env :: env where
  "cancel_env = pi_env \<lparr> job_envs := (\<lambda>i. if i = 1 then calm \<lparr> j_cancel_before := True \<rparr> else calm) \<rparr>"

text \<open>The transport calls the hook for every transfer (once, at 0 bytes).\<close>

definition hook_env :: env where
  "hook_env = pi_env \<lparr> scripts := (\<lambda>n. one_chunk) \<rparr>"

text \<open>Every transfer fails in the transport.\<close>

definition failing_env :: env where
  "failing_env = pi_env \<lparr> scripts := (\<lambda>n. failing) \<rparr>"

text \<open>A chunk boundary at 1024 bytes, reached at clock reading 5.\<close>

definition half_way :: chunk where
  "half_way = \<lparr> c_bytes = 1024, c_now = 5, c_cancel = False \<rparr>"

text \<open>A batch of two uploads; a batch whose first job names a file that does not exist.\<close>

definition two_jobs :: "job list" where
  "two_jobs = [(''a.txt'', ''/home/pi/a.txt''), (''empty.txt'', ''/home/pi/empty.txt'')]"

definition missing_first :: "job list" where
  "missing_first = [(''missing.txt'', ''/home/pi/missing.txt''), (''a.txt'', ''/home/pi/a.txt'')]"

text \<open>A cancel request arrives while the first chunk of a transfer is under way.\<close>

definition chunk_cancel_env :: env where
  "chunk_cancel_env = pi_env \<lparr> scripts := (\<lambda>n. \<lparr> s_start = 0,
       s_chunks = [\<lparr> c_bytes = 1024, c_now = 1, c_cancel = True \<rparr>],
       s_outcome = None, s_retry = None \<rparr>) \<rparr>"

section \<open>The transfer log\<close>

lemma observe_log_eq: "observe_log s = read_list s (transfer_log s)"
  by (simp add: observe_log_def get_transfer_log_def read_list_def list_at_def Let_def)

lemma last100_append1: "last100 (last100 xs @ [x]) = last100 (xs @ [x])"
proof (cases "length xs \<le> 100")
  case True
  then show ?thesis by (simp add: last100_def)
next
  case False
  then have "length xs - 100 + 1 = length xs - 99" by arith
  with False show ?thesis by (simp add: last100_def)
qed

lemma last100_map: "map f (last100 xs) = last100 (map f xs)"
  by (simp add: last100_def drop_map)

lemma last100_length: "length (last100 xs) = min (length xs) 100"
  by (simp add: last100_def)

lemma last100_id: "length xs \<le> 100 \<Longrightarrow> last100 xs = xs"
  by (simp add: last100_def)

lemma map_upd_below:
  "list_all (\<lambda>d. d < (n::nat)) xs \<Longrightarrow> map (f(n := v)) xs = map f xs"
  by (induction xs) auto

lemma log_transfer_list:
  "list_at (log_transfer a f sz du ts s) (transfer_log (log_transfer a f sz du ts s)) =
   last100 (list_at s (transfer_log s) @ [next_ref s])"
  by (simp add: log_transfer_def Let_def list_at_def last100_def)

lemma log_transfer_dict:
  "dict_objs (log_transfer a f sz du ts s) =
   (dict_objs s)(next_ref s := Some (entry_of (a, f, sz, du, ts)))"
  by (simp add: log_transfer_def Let_def entry_of_def)

text \<open>Seen through \<open>observe_log\<close>, logging appends the entry and keeps the last 100.\<close>

lemma log_transfer_observe:
  assumes "wf s"
  shows "observe_log (log_transfer a f sz du ts s) =
         last100 (observe_log s @ [Some (entry_of (a, f, sz, du, ts))])"
proof -
  let ?xs = "list_at s (transfer_log s)"
  have below: "list_all (\<lambda>d. d < next_ref s) ?xs"
    using assms by (simp add: wf_def)
  have m: "map ((dict_objs s)(next_ref s := v)) ?xs = map (dict_objs s) ?xs" for v
    using below by (rule map_upd_below)
  show ?thesis
    by (simp add: observe_log_eq read_list_def log_transfer_list log_transfer_dict
          last100_map m del: fun_upd_apply) simp
qed

lemma log_transfer_wf:
  assumes "wf s"
  shows "wf (log_transfer a f sz du ts s)"
proof -
  let ?s' = "log_transfer a f sz du ts s"
  let ?xs = "list_at s (transfer_log s)"
  have below: "\<forall>d\<in>set ?xs. d < next_ref s"
    using assms by (simp add: wf_def list_all_iff)
  have n: "Suc (next_ref s) \<le> next_ref ?s'"
    by (simp add: log_transfer_def Let_def)
  have t: "transfer_log ?s' < next_ref ?s'"
    using assms by (simp add: wf_def log_transfer_def Let_def)
  have "\<forall>d\<in>set (?xs @ [next_ref s]). d < next_ref ?s'"
    using below n by auto
  then have "\<forall>d\<in>set (last100 (?xs @ [next_ref s])). d < next_ref ?s'"
    unfolding last100_def by (meson in_set_dropD)
  then show ?thesis
    using t by (simp add: wf_def log_transfer_list list_all_iff)
qed

lemma init_wf: "wf init"
  by (simp add: wf_def init_def list_at_def)

lemma init_observe: "observe_log init = []"
  by (simp add: observe_log_eq read_list_def init_def list_at_def)

lemma log_req_observe:
  "wf s \<Longrightarrow> observe_log (log_req q s) = last100 (observe_log s @ [Some (entry_of q)])"
  by (cases q) (simp add: log_req_def log_transfer_observe)

lemma log_req_wf: "wf s \<Longrightarrow> wf (log_req q s)"
  by (cases q) (simp add: log_req_def log_transfer_wf)

lemma fold_log_req_wf: "wf s \<Longrightarrow> wf (fold log_req qs s)"
  by (induction qs arbitrary: s) (simp_all add: log_req_wf)

lemma fold_log_req_observe:
  assumes "wf s" and "length (observe_log s) \<le> 100"
  shows "observe_log (fold log_req qs s) =
         last100 (observe_log s @ map (\<lambda>q. Some (entry_of q)) qs)"
proof (induction qs rule: rev_induct)
  case Nil
  show ?case using assms(2) by (simp add: last100_id)
next
  case (snoc q qs)
  have "observe_log (fold log_req (qs @ [q]) s) =
        last100 (observe_log (fold log_req qs s) @ [Some (entry_of q)])"
    using fold_log_req_wf [OF assms(1)] by (simp add: log_req_observe)
  also have "\<dots> = last100 ((observe_log s @ map (\<lambda>q. Some (entry_of q)) qs) @ [Some (entry_of q)])"
    unfolding snoc.IH by (rule last100_append1)
  finally show ?case by simp
qed

text \<open>
  C4.  A call of \<^verbatim>\<open>transfer_files\<close> made while a batch is in progress returns
  \<^verbatim>\<open>False\<close> and leaves the whole state as it was: the running batch, the cancel flag,
  the callbacks and the log.
\<close>

theorem submit_while_busy_rejected:
  "transfer_in_progress s \<Longrightarrow>
   is_transfer_in_progress s \<and> transfer_files file_list direction s = (False, s)"
  by (simp add: transfer_files_def is_transfer_in_progress_def)

theorem submit_while_busy_rejected_witness:
  "transfer_in_progress (init\<lparr>transfer_in_progress := True\<rparr>) \<and>
   transfer_files [(''a.txt'', ''/home/pi/a.txt'')] ''upload'' (init\<lparr>transfer_in_progress := True\<rparr>)
     = (False, init\<lparr>transfer_in_progress := True\<rparr>)"
  using submit_while_busy_rejected [of "init\<lparr>transfer_in_progress := True\<rparr>"
      "[(''a.txt'', ''/home/pi/a.txt'')]" "''upload''"]
  by simp

text \<open>
  C5.  The log never holds more than 100 entries and drops the oldest first: after any
  sequence of logged transfers it shows the last 100 of all entries, in the order they were
  logged.  Starting from an empty log, after 101 logged transfers it has exactly 100
  entries, the second to the last one, and the first entry is gone.
\<close>

theorem transfer_log_keeps_last_100:
  assumes "wf s" and "length (observe_log s) \<le> 100"
  shows "length (observe_log (fold log_req qs s)) \<le> 100 \<and>
         observe_log (fold log_req qs s) = last100 (observe_log s @ map (\<lambda>q. Some (entry_of q)) qs) \<and>
         (observe_log s = [] \<and> length qs = 101 \<longrightarrow>
            length (observe_log (fold log_req qs s)) = 100 \<and>
            observe_log (fold log_req qs s) = map (\<lambda>q. Some (entry_of q)) (tl qs) \<and>
            (distinct (map entry_of qs) \<longrightarrow>
               Some (entry_of (hd qs)) \<notin> set (observe_log (fold log_req qs s))))"
proof -
  let ?obs = "observe_log (fold log_req qs s)"
  have eq: "?obs = last100 (observe_log s @ map (\<lambda>q. Some (entry_of q)) qs)"
    using assms by (rule fold_log_req_observe)
  have len: "length ?obs \<le> 100"
    unfolding eq by (simp add: last100_length)
  have full: "?obs = map (\<lambda>q. Some (entry_of q)) (tl qs) \<and> length ?obs = 100 \<and>
              (distinct (map entry_of qs) \<longrightarrow> Some (entry_of (hd qs)) \<notin> set ?obs)"
    if e: "observe_log s = []" and l: "length qs = 101"
  proof -
    obtain q rest where q: "qs = q # rest" using l by (cases qs) auto
    have "?obs = last100 (map (\<lambda>q. Some (entry_of q)) qs)"
      by (simp only: eq e append_Nil)
    also have "\<dots> = map (\<lambda>q. Some (entry_of q)) rest"
      using l by (simp add: q last100_def)
    finally have t: "?obs = map (\<lambda>q. Some (entry_of q)) rest" .
    have h: "tl qs = rest" "hd qs = q" by (simp_all add: q)
    have n: "distinct (map entry_of qs) \<longrightarrow>
             Some (entry_of q) \<notin> set (map (\<lambda>q. Some (entry_of q)) rest)"
      by (auto simp: q)
    show ?thesis using l n unfolding t h by (simp add: q)
  qed
  show ?thesis using eq len full by blast
qed

theorem transfer_log_keeps_last_100_witness:
  "wf init \<and> length (observe_log init) \<le> 100 \<and> length hundred_and_one = 101 \<and>
   distinct (map entry_of hundred_and_one) \<and>
   length (observe_log (fold log_req hundred_and_one init)) = 100 \<and>
   Some (entry_of (hd hundred_and_one)) \<notin> set (observe_log (fold log_req hundred_and_one init))"
proof -
  have d: "distinct (map entry_of hundred_and_one)"
    by (simp add: hundred_and_one_def distinct_map comp_def inj_on_def entry_of_def)
  have l: "length hundred_and_one = 101"
    by (simp add: hundred_and_one_def)
  have o: "length (observe_log init) \<le> 100"
    by (simp add: init_observe)
  show ?thesis
    using transfer_log_keeps_last_100 [OF init_wf o, of hundred_and_one] d l init_wf o init_observe
    by blast
qed

text \<open>
  C9, as the code has it.  \<^verbatim>\<open>get_transfer_log\<close> returns a new list object, distinct from
  the list of the log, that holds the very references the log holds, in the same order; the
  call creates no dict and changes neither the list of the log nor any entry.  Whatever
  the caller does to the returned list (adding, removing, replacing or reordering its
  elements) leaves the log unchanged, also as a later \<^verbatim>\<open>get_transfer_log\<close> shows it.  The
  entries are shared: a change the caller makes to the entry at any position of the
  returned list is a change of the entry at that position of the log.
\<close>

theorem get_transfer_log_copies_list:
  assumes "wf s" and "get_transfer_log s = (r, s')"
  shows "r \<noteq> transfer_log s \<and> transfer_log s' = transfer_log s \<and>
         list_at s' r = list_at s (transfer_log s) \<and>
         list_at s' (transfer_log s') = list_at s (transfer_log s) \<and>
         dict_objs s' = dict_objs s \<and>
         read_list (mutate_list r f s') (transfer_log s') = read_list s (transfer_log s) \<and>
         observe_log (mutate_list r f s') = observe_log s \<and>
         (\<forall>i < length (list_at s' r).
            read_list (mutate_dict (list_at s' r ! i) g s') (transfer_log s') ! i =
            map_option g (read_list s (transfer_log s) ! i))"
proof -
  have r: "r = next_ref s"
    and s': "s' = s\<lparr> list_objs := (list_objs s)(r := Some (list_at s (transfer_log s))),
                     next_ref := Suc r \<rparr>"
    using assms(2) by (auto simp: get_transfer_log_def Let_def)
  have ne: "transfer_log s \<noteq> r"
    using assms(1) r by (simp add: wf_def)
  have a: "r \<noteq> transfer_log s \<and> transfer_log s' = transfer_log s \<and> dict_objs s' = dict_objs s"
    using ne by (simp add: s')
  have b: "list_at s' r = list_at s (transfer_log s)"
    by (simp add: s' list_at_def)
  have c: "list_at s' (transfer_log s') = list_at s (transfer_log s)"
    using ne by (simp add: s' list_at_def)
  have d: "read_list (mutate_list r f s') (transfer_log s') = read_list s (transfer_log s)"
    using ne by (simp add: s' read_list_def mutate_list_def list_at_def)
  have e: "observe_log (mutate_list r f s') = observe_log s"
    using ne by (simp add: s' observe_log_eq read_list_def mutate_list_def list_at_def)
  have f: "read_list (mutate_dict (list_at s' r ! i) g s') (transfer_log s') ! i =
           map_option g (read_list s (transfer_log s) ! i)"
    if "i < length (list_at s' r)" for i
  proof -
    have i: "i < length (list_at s (transfer_log s))" using that b by simp
    have "list_at (mutate_dict (list_at s' r ! i) g s') (transfer_log s') = list_at s (transfer_log s)"
      using c by (simp add: mutate_dict_def list_at_def)
    then show ?thesis
      using i a b by (simp add: read_list_def mutate_dict_def)
  qed
  show ?thesis
    using a b c d e f by blast
qed

theorem get_transfer_log_copies_list_witness:
  "wf one_entry \<and>
   0 < length (list_at (snd (get_transfer_log one_entry)) (fst (get_transfer_log one_entry))) \<and>
   list_at (snd (get_transfer_log one_entry)) (fst (get_transfer_log one_entry)) =
     list_at one_entry (transfer_log one_entry) \<and>
   observe_log (mutate_list (fst (get_transfer_log one_entry)) (\<lambda>xs. [])
                  (snd (get_transfer_log one_entry)))
     = observe_log one_entry \<and>
   read_list (mutate_dict (list_at (snd (get_transfer_log one_entry)) (fst (get_transfer_log one_entry)) ! 0)
                (\<lambda>e. e\<lparr>le_filename := ''changed''\<rparr>) (snd (get_transfer_log one_entry)))
     (transfer_log (snd (get_transfer_log one_entry))) ! 0 =
   map_option (\<lambda>e. e\<lparr>le_filename := ''changed''\<rparr>) (read_list one_entry (transfer_log one_entry) ! 0)"
proof -
  have w: "wf one_entry"
    by (simp add: one_entry_def log_transfer_wf init_wf)
  have g: "get_transfer_log one_entry = (fst (get_transfer_log one_entry), snd (get_transfer_log one_entry))"
    by simp
  have l: "0 < length (list_at (snd (get_transfer_log one_entry)) (fst (get_transfer_log one_entry)))"
    by (simp add: one_entry_def get_transfer_log_def log_transfer_def init_def list_at_def Let_def)
  show ?thesis
    using w l get_transfer_log_copies_list [OF w g, of "\<lambda>xs. []" "\<lambda>e. e\<lparr>le_filename := ''changed''\<rparr>"]
    by blast
qed

text \<open>
  C9 as stated fails: the dicts in the returned list are the dicts of the log.  After one
  logged upload, the caller takes the log, renames the file in the first entry of the list
  it was given, and the log shows the new name.
\<close>

theorem get_transfer_log_shares_entries:
  "observe_log (mutate_dict (hd (list_at (snd (get_transfer_log one_entry)) (fst (get_transfer_log one_entry))))
                  (\<lambda>e. e\<lparr>le_filename := ''changed''\<rparr>) (snd (get_transfer_log one_entry)))
   \<noteq> observe_log one_entry"
  by (simp add: one_entry_def observe_log_eq read_list_def mutate_dict_def get_transfer_log_def
        log_transfer_def init_def list_at_def Let_def)

section \<open>Frame properties of the transfer functions\<close>

lemma seq_Inl [simp]: "seq (Inl e, s) g = (Inl e, s)"
  by (simp add: seq_def)

lemma seq_Inr [simp]: "seq (Inr x, s) g = g x s"
  by (simp add: seq_def)

lemma fr_refl: "fr q s s"
  by (simp add: fr_def)

lemma fr_trans: "fr q s s' \<Longrightarrow> fr q s' s'' \<Longrightarrow> fr q s s''"
  by (simp add: fr_def)

lemma fr_weaken: "fr q s s' \<Longrightarrow> (q' \<Longrightarrow> q) \<Longrightarrow> fr q' s s'"
  by (auto simp: fr_def)

lemma fr_seq:
  assumes "fr q s (snd m)" and "\<And>x. fr q (snd m) (snd (g x (snd m)))"
  shows "fr q s (snd (seq m g))"
proof (cases m)
  case (Pair r s1)
  show ?thesis
  proof (cases r)
    case (Inl e)
    with Pair assms(1) show ?thesis by simp
  next
    case (Inr x)
    have "fr q s (snd (g x s1))"
      using assms(1) assms(2) [of x] Pair by (auto intro: fr_trans)
    with Pair Inr show ?thesis by simp
  qed
qed

lemma fr_op: "\<not> is_status e \<Longrightarrow> fr q s (s\<lparr> trace := trace s @ [e] \<rparr>)"
  by (simp add: fr_def)

lemma fr_invoke: "\<not> is_status (mk v) \<Longrightarrow> fr q s (snd (invoke mk f v s))"
  by (simp add: fr_def invoke_def Let_def split: option.splits)

lemma fr_call_opt: "\<not> is_status (mk v) \<Longrightarrow> fr q s (snd (call_opt mk cb v s))"
  by (simp add: call_opt_def fr_refl fr_invoke split: option.splits)

lemma fr_report_progress: "fr q s (snd (report_progress file_size uploaded s))"
  by (simp add: report_progress_def fr_refl fr_invoke split: option.splits)

lemma fr_report_speed: "fr q s (snd (report_speed env file_size uploaded elapsed s))"
  unfolding report_speed_def Let_def
  by (rule fr_seq) (simp_all add: fr_call_opt fr_invoke fr_refl split: option.splits)

lemma fr_callback: "fr (\<not> c_cancel c) s (snd (callback env file_size start_time c s))"
proof (cases "c_cancel c")
  case True
  then show ?thesis
    by (simp add: callback_def cancel_transfer_def fr_def)
next
  case False
  show ?thesis
  proof (cases "transfer_cancelled s")
    case True
    with False show ?thesis by (simp add: callback_def fr_refl)
  next
    case nc: False
    have "fr (\<not> c_cancel c) s
            (snd (seq (report_progress file_size (c_bytes c) s)
                   (\<lambda>u s1. let elapsed = c_now c - start_time
                            in if elapsed > 0 then report_speed env file_size (c_bytes c) elapsed s1
                               else (Inr (), s1))))"
      by (rule fr_seq) (simp_all add: fr_report_progress fr_report_speed fr_refl Let_def)
    with False nc show ?thesis by (simp add: callback_def Let_def)
  qed
qed

lemma fr_run_chunks:
  "fr (\<forall>c\<in>set cs. \<not> c_cancel c) s (snd (run_chunks env file_size start_time cs s))"
proof (induction cs arbitrary: s)
  case Nil
  show ?case by (simp add: fr_refl)
next
  case (Cons c cs)
  let ?q = "\<forall>c\<in>set (c # cs). \<not> c_cancel c"
  have a: "fr ?q s (snd (callback env file_size start_time c s))"
    by (rule fr_weaken [OF fr_callback]) simp
  have b: "fr ?q s1 (snd (run_chunks env file_size start_time cs s1))" for s1
    by (rule fr_weaken [OF Cons.IH]) simp
  show ?case
    unfolding run_chunks.simps by (rule fr_seq [OF a]) (rule b)
qed

lemma fr_sftp_transfer:
  "\<not> is_status op \<Longrightarrow>
   fr (\<forall>c\<in>set (s_chunks scr). \<not> c_cancel c) s (snd (sftp_transfer env op file_size scr s))"
  unfolding sftp_transfer_def
  apply (rule fr_seq)
   apply (rule fr_trans [OF fr_op fr_run_chunks])
   apply assumption
  apply (simp add: fr_refl split: option.splits)
  done

lemma fr_sftp_transfer_plain:
  "\<not> is_status op \<Longrightarrow> fr q s (snd (sftp_transfer_plain op scr s))"
  by (simp add: sftp_transfer_plain_def Let_def fr_op split: option.splits)

lemma fr_transfer_body:
  assumes "\<not> is_status (mk True)" and "\<not> is_status (mk False)"
  shows "fr (no_chunk_cancel env) s (snd (transfer_body env mk file_size s))"
proof -
  let ?q = "no_chunk_cancel env"
  let ?scr = "scripts env (n_xfer s)"
  let ?s0 = "s\<lparr> n_xfer := Suc (n_xfer s) \<rparr>"
  obtain r s1 where t: "sftp_transfer env (mk True) file_size ?scr ?s0 = (r, s1)"
    by (cases "sftp_transfer env (mk True) file_size ?scr ?s0")
  have "fr ?q ?s0 (snd (sftp_transfer env (mk True) file_size ?scr ?s0))"
    by (rule fr_weaken [OF fr_sftp_transfer [OF assms(1)]]) (simp add: no_chunk_cancel_def)
  moreover have "fr ?q s ?s0" by (simp add: fr_def)
  ultimately have a: "fr ?q s s1" using t by (auto intro: fr_trans)
  obtain r2 s2 where p: "sftp_transfer_plain (mk False) ?scr s1 = (r2, s2)"
    by (cases "sftp_transfer_plain (mk False) ?scr s1")
  have b: "fr ?q s1 s2"
    using fr_sftp_transfer_plain [OF assms(2), of ?q s1 ?scr] p by simp
  have c: "fr ?q s2 (snd (call_opt Progress (progress_callback s2) 100 s2))"
    by (rule fr_call_opt) simp
  have ab: "fr ?q s s2" using a b by (rule fr_trans)
  have abc: "fr ?q s (snd (call_opt Progress (progress_callback s2) 100 s2))"
    using ab c by (rule fr_trans)
  show ?thesis
    using a ab abc t p
    by (auto simp: transfer_body_def Let_def split: sum.splits prod.splits)
qed

lemma fr_upload_file:
  "fr (no_chunk_cancel env) s (snd (upload_file env src local_path remote_path s))"
  by (simp add: upload_file_def fr_refl fr_transfer_body split: option.splits)

lemma fr_download_file:
  "fr (no_chunk_cancel env) s (snd (download_file env src remote_path local_path s))"
  by (simp add: download_file_def fr_refl fr_transfer_body split: option.splits)

lemma fr_upload_directory:
  "fr (no_chunk_cancel env) s (snd (upload_directory env nd local_path remote_path s))"
  and fr_upload_items:
  "fr (no_chunk_cancel env) s (upload_items env items local_path remote_path s)"
proof (induction env nd local_path remote_path s and env items local_path remote_path s
       rule: upload_directory_upload_items.induct)
  case (1 env sz local_path remote_path s)
  show ?case by (simp add: fr_refl fr_op)
next
  case (2 env sz items local_path remote_path s)
  show ?case
  proof (cases "is_connected_to_server env \<and> get_sftp_client env")
    case True
    have "fr (no_chunk_cancel env) s (s\<lparr> trace := trace s @ [Mkdir remote_path] \<rparr>)"
      by (rule fr_op) simp
    moreover have "fr (no_chunk_cancel env) (s\<lparr> trace := trace s @ [Mkdir remote_path] \<rparr>)
       (upload_items env items local_path remote_path (s\<lparr> trace := trace s @ [Mkdir remote_path] \<rparr>))"
      using "2.IH" True by simp
    ultimately show ?thesis using True by (auto intro: fr_trans)
  next
    case False
    then show ?thesis by (auto simp: fr_refl)
  qed
next
  case (3 env local_path remote_path s)
  show ?case by (simp add: fr_refl)
next
  case (4 env item nd rest local_path remote_path s)
  let ?lip = "path_join local_path item"
  let ?rip = "replace_backslash (path_join remote_path item)"
  let ?s' = "case nd of
              Dir sz items \<Rightarrow> snd (upload_directory env nd ?lip ?rip s)
            | File sz \<Rightarrow> snd (upload_file env (Some nd) ?lip ?rip s)"
  have a: "fr (no_chunk_cancel env) s ?s'"
  proof (cases nd)
    case (File sz)
    then show ?thesis by (simp add: fr_upload_file)
  next
    case (Dir sz items)
    then show ?thesis using "4.IH"(1) [OF refl refl Dir] by simp
  qed
  have b: "fr (no_chunk_cancel env) ?s' (upload_items env rest local_path remote_path ?s')"
    using "4.IH"(2) [OF refl refl] by simp
  show ?case
    using fr_trans [OF a b] by (simp add: Let_def)
qed

lemma fr_download_directory:
  "fr (no_chunk_cancel env) s (snd (download_directory env nd remote_path local_path s))"
  and fr_download_items:
  "fr (no_chunk_cancel env) s (download_items env items remote_path local_path s)"
proof (induction env nd remote_path local_path s and env items remote_path local_path s
       rule: download_directory_download_items.induct)
  case (1 env m sz remote_path local_path s)
  show ?case by (simp add: fr_refl fr_op)
next
  case (2 env m sz items remote_path local_path s)
  show ?case
  proof (cases "is_connected_to_server env \<and> get_sftp_client env")
    case True
    have "fr (no_chunk_cancel env) s (s\<lparr> trace := trace s @ [Makedirs local_path] \<rparr>)"
      by (rule fr_op) simp
    moreover have "fr (no_chunk_cancel env) (s\<lparr> trace := trace s @ [Makedirs local_path] \<rparr>)
       (download_items env items remote_path local_path (s\<lparr> trace := trace s @ [Makedirs local_path] \<rparr>))"
      using "2.IH" True by simp
    ultimately show ?thesis using True by (auto intro: fr_trans)
  next
    case False
    then show ?thesis by (auto simp: fr_refl)
  qed
next
  case (3 env remote_path local_path s)
  show ?case by (simp add: fr_refl)
next
  case (4 env filename nd rest remote_path local_path s)
  let ?rip = "replace_backslash (path_join remote_path filename)"
  let ?lip = "path_join local_path filename"
  let ?s' = "if is_directory (st_mode nd)
             then snd (download_directory env nd ?rip ?lip s)
             else snd (download_file env (Some nd) ?rip ?lip s)"
  have a: "fr (no_chunk_cancel env) s ?s'"
  proof (cases "is_directory (st_mode nd)")
    case False
    then show ?thesis by (simp add: fr_download_file)
  next
    case True
    then show ?thesis using "4.IH"(1) [OF refl refl True] by simp
  qed
  have b: "fr (no_chunk_cancel env) ?s' (download_items env rest remote_path local_path ?s')"
    using "4.IH"(2) [OF refl refl] by simp
  show ?case
    using fr_trans [OF a b] by (simp add: Let_def)
qed

lemma fr_dispatch:
  "fr (no_chunk_cancel env) s (snd (dispatch env direction source destination s))"
  by (simp add: dispatch_def fr_upload_file fr_download_file fr_upload_directory
      del: upload_directory.simps split: option.splits node.splits)

text \<open>The transfer functions leave the log alone.\<close>

lemma fr_observe_log: "fr q s s' \<Longrightarrow> observe_log s' = observe_log s"
  by (simp add: fr_def observe_log_eq read_list_def list_at_def)

lemma fr_wf: "fr q s s' \<Longrightarrow> wf s' = wf s"
  by (simp add: fr_def wf_def list_at_def)

lemma cancel_twice: "transfer_cancelled s \<Longrightarrow> cancel_transfer s = s"
  by (cases s) (simp add: cancel_transfer_def)

lemma jobs_loop_cancelled:
  "transfer_cancelled s \<Longrightarrow> jobs_loop env direction total_files i jobs s = (Inr (), s)"
proof (cases jobs)
  case Nil
  then show ?thesis by simp
next
  case (Cons j rest)
  assume c: "transfer_cancelled s"
  obtain source destination where j: "j = (source, destination)" by (cases j)
  show ?thesis
    using c by (simp add: Cons j cancel_twice Let_def)
qed


text \<open>Processing jobs leaves the callbacks and the batch flag alone.\<close>

lemma jr_refl: "jr s s"
  by (simp add: jr_def)

lemma jr_trans: "jr s s' \<Longrightarrow> jr s' s'' \<Longrightarrow> jr s s''"
  by (simp add: jr_def)

lemma fr_jr: "fr q s s' \<Longrightarrow> jr s s'"
  by (simp add: fr_def jr_def)

lemma jr_seq:
  assumes "jr s (snd m)" and "\<And>x. jr (snd m) (snd (g x (snd m)))"
  shows "jr s (snd (seq m g))"
proof (cases m)
  case (Pair r s1)
  show ?thesis
  proof (cases r)
    case (Inl e)
    with Pair assms(1) show ?thesis by simp
  next
    case (Inr x)
    have "jr s (snd (g x s1))"
      using assms(1) assms(2) [of x] Pair by (auto intro: jr_trans)
    with Pair Inr show ?thesis by simp
  qed
qed

lemma jr_cancel: "jr s (cancel_transfer s)"
  by (simp add: jr_def cancel_transfer_def)

lemma jr_call_opt: "jr s (snd (call_opt mk cb v s))"
  by (simp add: jr_def call_opt_def invoke_def Let_def split: option.splits)

lemma log_transfer_jr: "jr s (log_transfer a f sz du ts s)"
  by (simp add: jr_def log_transfer_def Let_def)


lemma log_transfer_cancelled:
  "transfer_cancelled (log_transfer a f sz du ts s) = transfer_cancelled s"
  by (simp add: log_transfer_def Let_def)

lemma transfer_job_jr: "jr s (transfer_job env direction je source destination s)"
proof -
  obtain success s1 where d: "dispatch env direction source destination s = (success, s1)"
    by (cases "dispatch env direction source destination s")
  have a: "jr s s1"
    using fr_dispatch [of env s direction source destination] d by (simp add: fr_jr)
  have b: "jr s (cancel_transfer s1)"
    using a jr_cancel by (rule jr_trans)
  show ?thesis
    using a b jr_trans [OF a log_transfer_jr] jr_trans [OF b log_transfer_jr]
    by (simp add: transfer_job_def d Let_def)
qed


lemma transfer_job_quiet:
  assumes "no_chunk_cancel env" and "\<not> j_cancel_after je"
  shows "transfer_cancelled (transfer_job env direction je source destination s) =
         transfer_cancelled s"
proof -
  obtain success s1 where d: "dispatch env direction source destination s = (success, s1)"
    by (cases "dispatch env direction source destination s")
  have a: "transfer_cancelled s1 = transfer_cancelled s"
    using fr_dispatch [of env s direction source destination] d assms(1) by (simp add: fr_def)
  show ?thesis
    using a assms(2) by (simp add: transfer_job_def d Let_def log_transfer_cancelled)
qed

lemma jobs_loop_jr: "jr s (snd (jobs_loop env direction total_files i jobs s))"
proof (induction jobs arbitrary: i s)
  case Nil
  show ?case by (simp add: jr_refl)
next
  case (Cons j rest)
  obtain source destination where j: "j = (source, destination)" by (cases j)
  let ?je = "job_envs env i"
  let ?s = "if j_cancel_before ?je then cancel_transfer s else s"
  have a: "jr s ?s" by (simp add: jr_refl jr_cancel)
  have b: "jr ?s (snd (seq (call_opt Status (status_callback ?s) (transferring i total_files source) ?s)
             (\<lambda>u s1.
                let s2 = transfer_job env direction ?je source destination s1
                in seq (if \<not> transfer_cancelled s2
                        then call_opt Progress (progress_callback s2)
                               (real (i + 1) / real total_files * 100) s2
                        else (Inr (), s2))
                     (\<lambda>u s3. jobs_loop env direction total_files (Suc i) rest s3))))"
  proof (rule jr_seq [OF jr_call_opt])
    fix x
    let ?s1 = "snd (call_opt Status (status_callback ?s) (transferring i total_files source) ?s)"
    let ?s2 = "transfer_job env direction ?je source destination ?s1"
    have c: "jr ?s1 ?s2" by (rule transfer_job_jr)
    have d: "jr ?s2 (snd (seq (if \<not> transfer_cancelled ?s2
                        then call_opt Progress (progress_callback ?s2)
                               (real (i + 1) / real total_files * 100) ?s2
                        else (Inr (), ?s2))
                     (\<lambda>u s3. jobs_loop env direction total_files (Suc i) rest s3)))"
      by (rule jr_seq) (simp_all add: jr_call_opt jr_refl Cons.IH)
    show "jr ?s1 (snd (let s2 = transfer_job env direction ?je source destination ?s1
                in seq (if \<not> transfer_cancelled s2
                        then call_opt Progress (progress_callback s2)
                               (real (i + 1) / real total_files * 100) s2
                        else (Inr (), s2))
                     (\<lambda>u s3. jobs_loop env direction total_files (Suc i) rest s3)))"
      using jr_trans [OF c d] by (simp add: Let_def)
  qed
  show ?case
    using a jr_trans [OF a b] by (simp add: j Let_def)
qed


subsection \<open>What a transfer adds to the trace\<close>



















lemma ext_cong: "trace t = trace s \<Longrightarrow> trace t' = trace s' \<Longrightarrow> ext P s s' \<Longrightarrow> ext P t t'"
  by (simp add: ext_def)




section \<open>Evaluating the model on concrete inputs\<close>

lemmas model_defs =
  call_opt_def invoke_def report_progress_def report_speed_def callback_def
  sftp_transfer_def sftp_transfer_plain_def transfer_body_def upload_file_def download_file_def
  dispatch_def transfer_job_def final_status_def transfer_thread_def transferring_def
  is_connected_to_server_def get_sftp_client_def get_file_size_def cancel_transfer_def
  set_progress_callbacks_def

lemmas input_defs =
  pi_env_def watched_def silent_def calm_def one_chunk_def failing_def cancel_env_def init_def
  hook_env_def failing_env_def half_way_def remote_d_def two_jobs_def missing_first_def chunk_cancel_env_def

lemma str_nat_1: "str_nat (Suc 0) = ''1''"
  by (simp add: str_nat.simps digit_char_def)

lemma str_nat_2: "str_nat 2 = ''2''"
  by (simp add: str_nat.simps digit_char_def)

lemma str_nat_SS: "str_nat (Suc (Suc 0)) = ''2''"
  by (simp add: str_nat.simps digit_char_def)

lemma no_callback: "\<not> contains ''callback'' (lower ''Failure'')"
  by (simp add: lower_def lower_char_def)

lemma basename_d: "basename ''/remote/d'' = ''d''"
  by (simp add: basename_def)


section \<open>The hook and the dispatch of jobs\<close>

text \<open>
  C8, as the code has it.  At a chunk boundary where the clock has not advanced since the
  start of the transfer, the hook calls neither the speed callback nor the callback for the
  remaining time.
\<close>

theorem no_speed_when_no_time_elapsed:
  "c_now c \<le> start_time \<Longrightarrow>
   filter is_speed_or_eta (trace (snd (callback env file_size start_time c s))) =
   filter is_speed_or_eta (trace s)"
  by (simp add: callback_def report_progress_def invoke_def seq_def cancel_transfer_def Let_def
        split: option.splits)

theorem no_speed_when_no_time_elapsed_witness:
  "c_now half_way \<le> 5 \<and>
   filter is_speed_or_eta (trace (snd (callback pi_env 2048 5 half_way watched))) = []"
  using no_speed_when_no_time_elapsed [of half_way 5 pi_env 2048 watched]
  by (simp add: half_way_def watched_def init_def set_progress_callbacks_def)

text \<open>
  C8 as stated fails.  With all callbacks set, the hook is called at 1024 of 2048 bytes at
  the very clock reading of the start: the progress callback is called with 50, the speed
  callback is not called at all.
\<close>

theorem speed_skipped_at_elapsed_zero:
  "trace (snd (callback pi_env 2048 5 half_way watched)) = [Progress 50]"
  by (simp add: model_defs input_defs seq_def Let_def)

text \<open>
  C1 fails in the code.  The hook divides the byte count by the size of the file.  For an
  empty file and a transport that calls the hook, the division raises, the upload (the
  download) returns \<^verbatim>\<open>False\<close>, and no progress is reported; for a transport that calls no
  hook, the transfer succeeds and no progress is reported either.
\<close>

theorem empty_file_reports_no_progress:
  "report_progress 0 0 watched = (Inl ''division by zero'', watched) \<and>
   \<not> fst (upload_file hook_env (local_fs hook_env ''empty.txt'') ''empty.txt'' ''/remote/empty.txt'' watched) \<and>
   trace (snd (upload_file hook_env (local_fs hook_env ''empty.txt'') ''empty.txt'' ''/remote/empty.txt'' watched))
     = [Put ''empty.txt'' ''/remote/empty.txt'' True] \<and>
   \<not> fst (download_file hook_env (remote_fs hook_env ''/remote/empty.txt'') ''/remote/empty.txt'' ''empty.txt'' watched) \<and>
   trace (snd (download_file hook_env (remote_fs hook_env ''/remote/empty.txt'') ''/remote/empty.txt'' ''empty.txt'' watched))
     = [Get ''/remote/empty.txt'' ''empty.txt'' True] \<and>
   fst (upload_file pi_env (local_fs pi_env ''empty.txt'') ''empty.txt'' ''/remote/empty.txt'' watched) \<and>
   trace (snd (upload_file pi_env (local_fs pi_env ''empty.txt'') ''empty.txt'' ''/remote/empty.txt'' watched))
     = [Put ''empty.txt'' ''/remote/empty.txt'' True]"
  by (simp add: model_defs input_defs seq_def Let_def lower_def lower_char_def)

text \<open>
  C2 fails in the code for downloads.  The job \<^verbatim>\<open>('/remote/d', 'd')\<close> of a download
  batch, whose source is a directory, goes to \<^verbatim>\<open>download_file\<close>: the one operation issued
  is a \<^verbatim>\<open>get\<close> of the directory itself, no local directory is created and no file is
  copied.  \<^verbatim>\<open>download_directory\<close>, called on the same source, creates \<^verbatim>\<open>d\<close> and
  \<^verbatim>\<open>d/sub\<close> and copies \<^verbatim>\<open>f.bin\<close>.
\<close>

theorem download_of_directory_not_walked:
  "dispatch failing_env ''download'' ''/remote/d'' ''d'' watched =
     download_file failing_env (Some remote_d) ''/remote/d'' ''d'' watched \<and>
   trace (transfer_thread failing_env [(''/remote/d'', ''d'')] ''download'' watched) =
     [Status ''Transferring (1/1): d'', Get ''/remote/d'' ''d'' True, Progress 100,
      Status ''Transfer completed''] \<and>
   observe_log (transfer_thread failing_env [(''/remote/d'', ''d'')] ''download'' watched) = [] \<and>
   trace (snd (download_directory pi_env remote_d ''/remote/d'' ''d'' watched)) =
     [Makedirs ''d'', Get ''/remote/d/f.bin'' ''d/f.bin'' True, Makedirs ''d/sub'']"
  by (simp add: model_defs input_defs seq_def Let_def str_nat_1 basename_def no_callback
        is_directory_def path_join_def replace_backslash_def observe_log_eq read_list_def list_at_def)

section \<open>Batches: cancellation, failures and the log\<close>

lemma seq_assoc: "seq (seq m g) h = seq m (\<lambda>x s. seq (g x s) h)"
proof (cases m)
  case (Pair r s1)
  then show ?thesis by (cases r) simp_all
qed

lemma jobs_loop_append:
  "jobs_loop env direction total_files i (pre @ post) s =
   seq (jobs_loop env direction total_files i pre s)
     (\<lambda>u s'. jobs_loop env direction total_files (i + length pre) post s')"
proof (induction pre arbitrary: i s)
  case Nil
  show ?case by simp
next
  case (Cons j rest)
  obtain source destination where j: "j = (source, destination)" by (cases j)
  have ih: "jobs_loop env direction total_files k (rest @ post) =
            (\<lambda>s. seq (jobs_loop env direction total_files k rest s)
                   (\<lambda>u s'. jobs_loop env direction total_files (k + length rest) post s'))" for k
    by (rule ext) (rule Cons.IH)
  show ?case
    by (simp add: j Let_def ih seq_assoc jobs_loop_cancelled)
qed

text \<open>
  C7.  When the worker ends, both flags are reset, whatever happened, and the next call of
  \<^verbatim>\<open>transfer_files\<close> is accepted.  When the loop has processed the jobs \<open>pre\<close> and the
  cancel flag is set at the next check (it was set during \<open>pre\<close>, or the request arrives
  before the check at the head of the next job, or before the check of the final status),
  the worker does nothing for the remaining jobs \<open>post\<close>: all it adds to the trace is the
  status \<^verbatim>\<open>Transfer cancelled\<close>, when a status callback is set.
\<close>

theorem cancel_skips_rest_and_flags_reset:
  "\<not> transfer_in_progress (transfer_thread env file_list direction s) \<and>
   \<not> transfer_cancelled (transfer_thread env file_list direction s) \<and>
   fst (transfer_files file_list' direction' (transfer_thread env file_list direction s)) \<and>
   (file_list = pre @ post \<and>
    jobs_loop env direction (length file_list) 0 pre
      (s\<lparr> transfer_in_progress := True, transfer_cancelled := False \<rparr>) = (Inr (), sm) \<and>
    (transfer_cancelled sm \<or>
     (case post of [] \<Rightarrow> cancel_at_end env
      | j # rest \<Rightarrow> j_cancel_before (job_envs env (length pre)))) \<longrightarrow>
    trace (transfer_thread env file_list direction s) =
      trace sm @ (case status_callback s of None \<Rightarrow> []
                  | Some f \<Rightarrow> [Status ''Transfer cancelled'']))"
proof -
  let ?T = "transfer_thread env file_list direction s"
  let ?s1 = "s\<lparr> transfer_in_progress := True, transfer_cancelled := False \<rparr>"
  have flags: "\<not> transfer_in_progress ?T \<and> \<not> transfer_cancelled ?T"
    by (simp add: transfer_thread_def Let_def)
  then have accepted: "fst (transfer_files file_list' direction' ?T)"
    by (simp add: transfer_files_def)
  have cancelled: "trace ?T = trace sm @ (case status_callback s of None \<Rightarrow> []
                  | Some f \<Rightarrow> [Status ''Transfer cancelled''])"
    if fl: "file_list = pre @ post"
      and pre: "jobs_loop env direction (length file_list) 0 pre ?s1 = (Inr (), sm)"
      and c: "transfer_cancelled sm \<or>
              (case post of [] \<Rightarrow> cancel_at_end env
               | j # rest \<Rightarrow> j_cancel_before (job_envs env (length pre)))"
  proof -
    have "jr ?s1 (snd (jobs_loop env direction (length file_list) 0 pre ?s1))"
      by (rule jobs_loop_jr)
    then have sc: "status_callback sm = status_callback s"
      by (simp add: pre jr_def)
    have whole: "jobs_loop env direction (length file_list) 0 file_list ?s1 =
                 jobs_loop env direction (length file_list) (length pre) post sm"
      using jobs_loop_append [of env direction "length file_list" 0 pre post ?s1] pre
      by (simp add: fl)
    obtain s2 where l: "jobs_loop env direction (length file_list) (length pre) post sm = (Inr (), s2)"
      and t: "trace s2 = trace sm" and sc2: "status_callback s2 = status_callback sm"
      and c2: "transfer_cancelled s2 \<or> cancel_at_end env"
    proof (cases "transfer_cancelled sm")
      case True
      then show ?thesis
        using that [of sm] by (simp add: jobs_loop_cancelled)
    next
      case False
      show ?thesis
      proof (cases post)
        case Nil
        then show ?thesis
          using that [of sm] c False by simp
      next
        case (Cons j rest)
        obtain source destination where j: "j = (source, destination)" by (cases j)
        have "j_cancel_before (job_envs env (length pre))"
          using c False Cons by simp
        then show ?thesis
          using that [of "cancel_transfer sm"]
          by (simp add: Cons j Let_def cancel_transfer_def)
      qed
    qed
    have "trace (snd (final_status env s2)) =
          trace sm @ (case status_callback s of None \<Rightarrow> [] | Some f \<Rightarrow> [Status ''Transfer cancelled''])"
      using c2 t sc2 sc
      by (auto simp: final_status_def Let_def call_opt_def invoke_def cancel_transfer_def
          split: option.splits)
    then show ?thesis
      by (simp add: transfer_thread_def Let_def whole l)
  qed
  show ?thesis
    using flags accepted cancelled by blast
qed

theorem cancel_skips_rest_and_flags_reset_witness:
  "two_jobs = [(''a.txt'', ''/home/pi/a.txt'')] @ [(''empty.txt'', ''/home/pi/empty.txt'')] \<and>
   j_cancel_before (job_envs cancel_env (length [(''a.txt'', ''/home/pi/a.txt'')])) \<and>
   fst (transfer_files two_jobs ''upload'' (transfer_thread cancel_env two_jobs ''upload'' watched)) \<and>
   trace (transfer_thread cancel_env two_jobs ''upload'' watched) =
     [Status ''Transferring (1/2): a.txt'', Put ''a.txt'' ''/home/pi/a.txt'' True, Progress 50,
      Status ''Transfer cancelled''] \<and>
   trace (transfer_thread chunk_cancel_env two_jobs ''upload'' watched) =
     [Status ''Transferring (1/2): a.txt'', Put ''a.txt'' ''/home/pi/a.txt'' True,
      Status ''Transfer cancelled'']"
  using cancel_skips_rest_and_flags_reset [of cancel_env two_jobs "''upload''" watched
      two_jobs "''upload''" "[(''a.txt'', ''/home/pi/a.txt'')]"
      "[(''empty.txt'', ''/home/pi/empty.txt'')]"
      "snd (jobs_loop cancel_env ''upload'' (length two_jobs) 0 [(''a.txt'', ''/home/pi/a.txt'')]
              (watched\<lparr> transfer_in_progress := True, transfer_cancelled := False \<rparr>))"]
    cancel_skips_rest_and_flags_reset [of chunk_cancel_env two_jobs "''upload''" watched
      two_jobs "''upload''" "[(''a.txt'', ''/home/pi/a.txt'')]"
      "[(''empty.txt'', ''/home/pi/empty.txt'')]"
      "snd (jobs_loop chunk_cancel_env ''upload'' (length two_jobs) 0 [(''a.txt'', ''/home/pi/a.txt'')]
              (watched\<lparr> transfer_in_progress := True, transfer_cancelled := False \<rparr>))"]
  by (simp add: model_defs input_defs Let_def str_nat_1 str_nat_2 basename_def log_transfer_def
        transfer_files_def list_at_def str_nat_SS lower_def lower_char_def)

lemma call_opt_never_raises:
  "never_raises cb \<Longrightarrow>
   call_opt mk cb v s = (Inr (), case cb of None \<Rightarrow> s | Some g \<Rightarrow> s\<lparr> trace := trace s @ [mk v] \<rparr>)"
  by (auto simp: never_raises_def call_opt_def invoke_def Let_def split: option.splits)



lemma no_cancel_pi_env: "no_cancel pi_env"
  by (simp add: no_cancel_def no_chunk_cancel_def pi_env_def silent_def calm_def)



subsection \<open>What a batch adds to the log\<close>

lemma store_call_opt:
  "observe_log (snd (call_opt mk cb v s)) = observe_log s \<and> wf (snd (call_opt mk cb v s)) = wf s"
  by (simp add: call_opt_def invoke_def observe_log_eq read_list_def list_at_def wf_def Let_def
      split: option.splits)

lemma store_cancel:
  "observe_log (cancel_transfer s) = observe_log s \<and> wf (cancel_transfer s) = wf s"
  by (simp add: cancel_transfer_def observe_log_eq read_list_def list_at_def wf_def)

lemma grown_same: "wf s' \<Longrightarrow> observe_log s' = observe_log s \<Longrightarrow> grown jobs 0 s s'"
  by (simp add: grown_def)

lemma grown_trans:
  assumes "grown jobs a s s'" and "grown jobs b s' s''"
  shows "grown jobs (a + b) s s''"
proof -
  have "e \<in> set (observe_log s) \<or>
        (\<exists>(source, destination) \<in> set jobs. map_option le_filename e = Some (basename source))"
    if "e \<in> set (observe_log s'')" for e
  proof -
    have "e \<in> set (observe_log s') \<or>
          (\<exists>(source, destination) \<in> set jobs. map_option le_filename e = Some (basename source))"
      using assms(2) that by (simp add: grown_def)
    then show ?thesis
      using assms(1) by (auto simp: grown_def)
  qed
  then show ?thesis
    using assms by (simp add: grown_def)
qed

lemma grown_mono:
  assumes "grown jobs a s s'" and "a \<le> b" and "set jobs \<subseteq> set jobs'"
  shows "grown jobs' b s s'"
proof -
  have "e \<in> set (observe_log s) \<or>
        (\<exists>(source, destination) \<in> set jobs'. map_option le_filename e = Some (basename source))"
    if "e \<in> set (observe_log s')" for e
  proof -
    have "e \<in> set (observe_log s) \<or>
          (\<exists>(source, destination) \<in> set jobs. map_option le_filename e = Some (basename source))"
      using assms(1) that by (simp add: grown_def)
    then show ?thesis
      using assms(3) by auto
  qed
  then show ?thesis
    using assms(1,2) by (simp add: grown_def)
qed

lemma grown_wf: "grown jobs n s s' \<Longrightarrow> wf s'"
  by (simp add: grown_def)

lemma grown_seq:
  assumes "grown jobs a s (snd m)"
    and "\<And>x. wf (snd m) \<Longrightarrow> grown jobs b (snd m) (snd (g x (snd m)))"
  shows "grown jobs (a + b) s (snd (seq m g))"
proof (cases m)
  case (Pair r s1)
  have w: "wf s1" using assms(1) Pair by (simp add: grown_def)
  show ?thesis
  proof (cases r)
    case (Inl e)
    have "grown jobs (a + b) s s1"
      using assms(1) Pair by (auto intro: grown_mono)
    with Pair Inl show ?thesis by simp
  next
    case (Inr x)
    have "grown jobs b s1 (snd (g x s1))"
      using assms(2) [of x] w Pair by simp
    then have "grown jobs (a + b) s (snd (g x s1))"
      using assms(1) Pair by (auto intro: grown_trans)
    with Pair Inr show ?thesis by simp
  qed
qed

lemma grown_call_opt: "wf s \<Longrightarrow> grown jobs 0 s (snd (call_opt mk cb v s))"
  by (rule grown_same) (simp_all add: store_call_opt)

lemma grown_transfer_job:
  assumes "wf s"
  shows "grown [(source, destination)] 1 s (transfer_job env direction je source destination s)"
proof -
  obtain success s1 where d: "dispatch env direction source destination s = (success, s1)"
    by (cases "dispatch env direction source destination s")
  have f: "fr (no_chunk_cancel env) s s1"
    using fr_dispatch [of env s direction source destination] d by simp
  let ?s2 = "if j_cancel_after je then cancel_transfer s1 else s1"
  have o: "observe_log ?s2 = observe_log s"
    using fr_observe_log [OF f] by (simp add: store_cancel)
  have w: "wf ?s2"
    using fr_wf [OF f] assms by (simp add: store_cancel)
  show ?thesis
  proof (cases "success \<and> \<not> transfer_cancelled ?s2")
    case False
    then have "transfer_job env direction je source destination s = ?s2"
      by (auto simp: transfer_job_def d Let_def)
    then show ?thesis
      using w o by (simp add: grown_def)
  next
    case True
    let ?sz = "get_file_size env source (direction = ''download'')"
    let ?du = "Some (j_end je - j_start je)"
    let ?e = "Some (entry_of (direction, basename source, ?sz, ?du, j_stamp je))"
    have t: "transfer_job env direction je source destination s =
             log_transfer direction (basename source) ?sz ?du (j_stamp je) ?s2"
      using True by (simp add: transfer_job_def d Let_def)
    have l: "observe_log (log_transfer direction (basename source) ?sz ?du (j_stamp je) ?s2) =
             last100 (observe_log s @ [?e])"
      using log_transfer_observe [OF w] o by simp
    have n: "map_option le_filename ?e = Some (basename source)"
      by (simp add: entry_of_def)
    have m: "e \<in> set (observe_log s) \<or> e = ?e" if "e \<in> set (last100 (observe_log s @ [?e]))" for e
      using that set_drop_subset [of "length (observe_log s @ [?e]) - 100" "observe_log s @ [?e]"]
      by (auto simp: last100_def)
    have w': "wf (log_transfer direction (basename source) ?sz ?du (j_stamp je) ?s2)"
      using w by (rule log_transfer_wf)
    have len: "length (last100 (observe_log s @ [?e])) \<le> length (observe_log s) + 1"
      by (simp add: last100_length)
    have mem: "\<forall>e \<in> set (last100 (observe_log s @ [?e])).
                 e \<in> set (observe_log s) \<or>
                 (\<exists>(src, dst) \<in> set [(source, destination)].
                    map_option le_filename e = Some (basename src))"
    proof
      fix e
      assume "e \<in> set (last100 (observe_log s @ [?e]))"
      then have "e \<in> set (observe_log s) \<or> e = ?e" by (rule m)
      then show "e \<in> set (observe_log s) \<or>
                 (\<exists>(src, dst) \<in> set [(source, destination)].
                    map_option le_filename e = Some (basename src))"
        using n by auto
    qed
    show ?thesis
      unfolding grown_def t l
      using w' len mem by blast
  qed
qed

lemma jobs_loop_grown:
  "wf s \<Longrightarrow> grown jobs (length jobs) s (snd (jobs_loop env direction total_files i jobs s))"
proof (induction jobs arbitrary: i s)
  case Nil
  then show ?case by (simp add: grown_def)
next
  case (Cons j rest)
  obtain source destination where j: "j = (source, destination)" by (cases j)
  let ?J = "(source, destination) # rest"
  let ?je = "job_envs env i"
  let ?s = "if j_cancel_before ?je then cancel_transfer s else s"
  have a: "grown ?J 0 s ?s"
    using Cons.prems by (simp add: grown_def store_cancel)
  have ws: "wf ?s" using a by (rule grown_wf)
  have b: "grown ?J (0 + (1 + (0 + length rest))) ?s
             (snd (seq (call_opt Status (status_callback ?s) (transferring i total_files source) ?s)
             (\<lambda>u s1.
                let s2 = transfer_job env direction ?je source destination s1
                in seq (if \<not> transfer_cancelled s2
                        then call_opt Progress (progress_callback s2)
                               (real (i + 1) / real total_files * 100) s2
                        else (Inr (), s2))
                     (\<lambda>u s3. jobs_loop env direction total_files (Suc i) rest s3))))"
  proof (rule grown_seq)
    show "grown ?J 0 ?s (snd (call_opt Status (status_callback ?s) (transferring i total_files source) ?s))"
      using ws by (rule grown_call_opt)
  next
    fix x
    let ?s1 = "snd (call_opt Status (status_callback ?s) (transferring i total_files source) ?s)"
    let ?s2 = "transfer_job env direction ?je source destination ?s1"
    assume w1: "wf ?s1"
    have "grown [(source, destination)] 1 ?s1 ?s2"
      using w1 by (rule grown_transfer_job)
    then have c: "grown ?J 1 ?s1 ?s2"
      by (rule grown_mono) simp_all
    have w2: "wf ?s2" using c by (rule grown_wf)
    have p: "grown ?J 0 ?s2 (snd (if \<not> transfer_cancelled ?s2
                        then call_opt Progress (progress_callback ?s2)
                               (real (i + 1) / real total_files * 100) ?s2
                        else (Inr (), ?s2)))"
      using w2 by (simp add: grown_call_opt grown_same)
    have e: "grown ?J (0 + length rest) ?s2 (snd (seq (if \<not> transfer_cancelled ?s2
                        then call_opt Progress (progress_callback ?s2)
                               (real (i + 1) / real total_files * 100) ?s2
                        else (Inr (), ?s2))
                     (\<lambda>u s3. jobs_loop env direction total_files (Suc i) rest s3)))"
      using p
    proof (rule grown_seq)
      fix y
      let ?s3 = "snd (if \<not> transfer_cancelled ?s2
                        then call_opt Progress (progress_callback ?s2)
                               (real (i + 1) / real total_files * 100) ?s2
                        else (Inr (), ?s2))"
      assume "wf ?s3"
      then have "grown rest (length rest) ?s3 (snd (jobs_loop env direction total_files (Suc i) rest ?s3))"
        by (rule Cons.IH)
      then show "grown ?J (length rest) ?s3 (snd (jobs_loop env direction total_files (Suc i) rest ?s3))"
        by (rule grown_mono) auto
    qed
    show "grown ?J (1 + (0 + length rest)) ?s1
            (snd (let s2 = transfer_job env direction ?je source destination ?s1
                in seq (if \<not> transfer_cancelled s2
                        then call_opt Progress (progress_callback s2)
                               (real (i + 1) / real total_files * 100) s2
                        else (Inr (), s2))
                     (\<lambda>u s3. jobs_loop env direction total_files (Suc i) rest s3)))"
      using grown_trans [OF c e] by (simp add: Let_def)
  qed
  have "grown ?J (0 + (0 + (1 + (0 + length rest)))) s
             (snd (seq (call_opt Status (status_callback ?s) (transferring i total_files source) ?s)
             (\<lambda>u s1.
                let s2 = transfer_job env direction ?je source destination s1
                in seq (if \<not> transfer_cancelled s2
                        then call_opt Progress (progress_callback s2)
                               (real (i + 1) / real total_files * 100) s2
                        else (Inr (), s2))
                     (\<lambda>u s3. jobs_loop env direction total_files (Suc i) rest s3))))"
    using a b by (rule grown_trans)
  then have whole: "grown ?J (Suc (length rest)) s
             (snd (seq (call_opt Status (status_callback ?s) (transferring i total_files source) ?s)
             (\<lambda>u s1.
                let s2 = transfer_job env direction ?je source destination s1
                in seq (if \<not> transfer_cancelled s2
                        then call_opt Progress (progress_callback s2)
                               (real (i + 1) / real total_files * 100) s2
                        else (Inr (), s2))
                     (\<lambda>u s3. jobs_loop env direction total_files (Suc i) rest s3))))"
    by simp
  have a': "grown ?J (Suc (length rest)) s ?s"
    using a by (rule grown_mono) simp_all
  show ?case
  proof (cases "transfer_cancelled ?s")
    case True
    then have "jobs_loop env direction total_files i (j # rest) s = (Inr (), ?s)"
      by (simp add: j Let_def)
    then show ?thesis
      using a' by (simp add: j)
  next
    case False
    then have "jobs_loop env direction total_files i (j # rest) s =
               seq (call_opt Status (status_callback ?s) (transferring i total_files source) ?s)
             (\<lambda>u s1.
                let s2 = transfer_job env direction ?je source destination s1
                in seq (if \<not> transfer_cancelled s2
                        then call_opt Progress (progress_callback s2)
                               (real (i + 1) / real total_files * 100) s2
                        else (Inr (), s2))
                     (\<lambda>u s3. jobs_loop env direction total_files (Suc i) rest s3))"
      by (simp add: j Let_def)
    then show ?thesis
      using whole by (simp add: j)
  qed
qed

lemma transfer_thread_grown:
  assumes "wf s"
  shows "grown file_list (length file_list) s (transfer_thread env file_list direction s)"
proof -
  let ?s1 = "s\<lparr> transfer_in_progress := True, transfer_cancelled := False \<rparr>"
  obtain r s2 where l: "jobs_loop env direction (length file_list) 0 file_list ?s1 = (r, s2)"
    by (cases "jobs_loop env direction (length file_list) 0 file_list ?s1")
  have w1: "wf ?s1" and o1: "observe_log ?s1 = observe_log s"
    using assms by (simp_all add: wf_def observe_log_eq read_list_def list_at_def)
  have "grown file_list (length file_list) ?s1
          (snd (jobs_loop env direction (length file_list) 0 file_list ?s1))"
    using w1 by (rule jobs_loop_grown)
  then have g: "grown file_list (length file_list) s s2"
    using l o1 by (simp add: grown_def)
  have f: "observe_log (snd (final_status env s2)) = observe_log s2 \<and>
           wf (snd (final_status env s2)) = wf s2"
    by (simp add: final_status_def Let_def store_call_opt store_cancel)
  have reset: "observe_log (t\<lparr> transfer_in_progress := False, transfer_cancelled := False \<rparr>) = observe_log t \<and>
               wf (t\<lparr> transfer_in_progress := False, transfer_cancelled := False \<rparr>) = wf t" for t
    by (simp add: wf_def observe_log_eq read_list_def list_at_def)
  show ?thesis
  proof (cases r)
    case (Inl e)
    show ?thesis
      using g reset [of s2] by (simp add: transfer_thread_def Let_def l Inl grown_def)
  next
    case (Inr u)
    show ?thesis
      using g f reset [of "snd (final_status env s2)"]
      by (simp add: transfer_thread_def Let_def l Inr grown_def)
  qed
qed

lemma directory_job_entry:
  assumes "wf s" and "local_fs env source = Some (Dir sz items)"
    and "is_connected_to_server env" and "get_sftp_client env"
    and "no_chunk_cancel env" and "\<not> j_cancel_after je" and "\<not> transfer_cancelled s"
  shows "observe_log (snd (dispatch env direction' source' destination' s)) = observe_log s \<and>
         observe_log (transfer_job env ''upload'' je source destination s) =
           last100 (observe_log s @
             [Some \<lparr> le_timestamp = j_stamp je, le_action = ''upload'',
                     le_filename = basename source, le_size = Some sz,
                     le_duration = Some (j_end je - j_start je) \<rparr>])"
proof -
  have never: "observe_log (snd (dispatch env direction' source' destination' s)) = observe_log s"
    using fr_dispatch by (rule fr_observe_log)
  obtain success s1 where d: "dispatch env ''upload'' source destination s = (success, s1)"
    by (cases "dispatch env ''upload'' source destination s")
  have ok: "success"
    using d assms(2,3,4) by (auto simp: dispatch_def)
  have f: "fr (no_chunk_cancel env) s s1"
    using fr_dispatch [of env s "''upload''" source destination] d by simp
  have o: "observe_log s1 = observe_log s" using f by (rule fr_observe_log)
  have w: "wf s1" using f assms(1) by (simp add: fr_wf)
  have c: "\<not> transfer_cancelled s1"
    using f assms(5,7) by (simp add: fr_def)
  have sz: "get_file_size env source False = Some sz"
    using assms(2) by (simp add: get_file_size_def)
  have "transfer_job env ''upload'' je source destination s =
        log_transfer ''upload'' (basename source) (Some sz) (Some (j_end je - j_start je)) (j_stamp je) s1"
    using ok c assms(6) sz by (simp add: transfer_job_def d Let_def)
  then show ?thesis
    using never log_transfer_observe [OF w] o by (simp add: entry_of_def)
qed

lemma wf_watched: "wf watched"
  by (simp add: watched_def set_progress_callbacks_def wf_def init_def list_at_def)

lemma observe_watched: "observe_log watched = []"
  by (simp add: watched_def set_progress_callbacks_def observe_log_eq read_list_def init_def list_at_def)

lemma transfer_thread_observe:
  assumes "jobs_loop env direction (length file_list) 0 file_list
             (s\<lparr> transfer_in_progress := True, transfer_cancelled := False \<rparr>) = (r, s2)"
  shows "observe_log (transfer_thread env file_list direction s) = observe_log s2"
proof -
  have f: "observe_log (snd (final_status env s2)) = observe_log s2"
    by (simp add: final_status_def Let_def store_call_opt store_cancel)
  have reset: "observe_log (t\<lparr> transfer_in_progress := False, transfer_cancelled := False \<rparr>) = observe_log t" for t
    by (simp add: observe_log_eq read_list_def list_at_def)
  show ?thesis
  proof (cases r)
    case (Inl e)
    show ?thesis
      using reset [of s2] by (simp add: transfer_thread_def Let_def assms Inl)
  next
    case (Inr u)
    show ?thesis
      using f reset [of "snd (final_status env s2)"]
      by (simp add: transfer_thread_def Let_def assms Inr)
  qed
qed

lemma directory_batch_entry:
  assumes w: "wf s" and dir: "local_fs env source = Some (Dir sz items)"
    and con: "is_connected_to_server env" and nc: "no_cancel env"
    and sc: "never_raises (status_callback s)" and pc: "never_raises (progress_callback s)"
  shows "observe_log (transfer_thread env [(source, destination)] ''upload'' s) =
         last100 (observe_log s @
           [Some \<lparr> le_timestamp = j_stamp (job_envs env 0), le_action = ''upload'',
                   le_filename = basename source, le_size = Some sz,
                   le_duration = Some (j_end (job_envs env 0) - j_start (job_envs env 0)) \<rparr>])"
proof -
  let ?je = "job_envs env 0"
  have nb: "\<not> j_cancel_before ?je" and na: "\<not> j_cancel_after ?je" and ncc: "no_chunk_cancel env"
    using nc by (simp_all add: no_cancel_def)
  have g: "get_sftp_client env"
    using con by (simp add: is_connected_to_server_def get_sftp_client_def)
  let ?s1 = "s\<lparr> transfer_in_progress := True, transfer_cancelled := False \<rparr>"
  let ?st = "transferring 0 (length [(source, destination)]) source"
  let ?s1a = "case status_callback ?s1 of None \<Rightarrow> ?s1 | Some g \<Rightarrow> ?s1\<lparr> trace := trace ?s1 @ [Status ?st] \<rparr>"
  have sc1: "never_raises (status_callback ?s1)" using sc by simp
  have a: "call_opt Status (status_callback ?s1) ?st ?s1 = (Inr (), ?s1a)"
    using sc1 by (rule call_opt_never_raises)
  have w1: "wf ?s1a" and o1: "observe_log ?s1a = observe_log s" and c1: "\<not> transfer_cancelled ?s1a"
    and pc1: "progress_callback ?s1a = progress_callback s"
    using w by (simp_all add: wf_def observe_log_eq read_list_def list_at_def split: option.splits)
  let ?s2 = "transfer_job env ''upload'' ?je source destination ?s1a"
  have o2: "observe_log ?s2 =
            last100 (observe_log s @
              [Some \<lparr> le_timestamp = j_stamp ?je, le_action = ''upload'',
                      le_filename = basename source, le_size = Some sz,
                      le_duration = Some (j_end ?je - j_start ?je) \<rparr>])"
    using directory_job_entry [OF w1 dir con g ncc na c1, of "''upload''" source destination destination]
      o1 by simp
  have c2: "\<not> transfer_cancelled ?s2"
    using transfer_job_quiet [OF ncc na, of "''upload''" source destination ?s1a] c1 by simp
  have pc2: "progress_callback ?s2 = progress_callback s"
    using transfer_job_jr [of ?s1a env "''upload''" ?je source destination] pc1 by (simp add: jr_def)
  let ?v = "real (0 + 1) / real (length [(source, destination)]) * 100"
  let ?s3 = "case progress_callback ?s2 of None \<Rightarrow> ?s2 | Some g \<Rightarrow> ?s2\<lparr> trace := trace ?s2 @ [Progress ?v] \<rparr>"
  have p: "call_opt Progress (progress_callback ?s2) ?v ?s2 = (Inr (), ?s3)"
    using pc by (simp only: pc2 call_opt_never_raises)
  have o3: "observe_log ?s3 = observe_log ?s2"
    by (simp add: observe_log_eq read_list_def list_at_def split: option.splits)
  have l: "jobs_loop env ''upload'' (length [(source, destination)]) 0 [(source, destination)] ?s1 =
           (Inr (), ?s3)"
    using nb a c2 p by (simp add: Let_def)
  show ?thesis
    using transfer_thread_observe [OF l] o3 o2 by simp
qed

text \<open>
  C3, as the code has it.  The transfer functions never write to the log; the worker logs
  once per job.  Whatever the batch and whatever happens during it, the log grows by at most
  one entry per job, and every entry it gains carries the base name of the source of a job.
  A batch that uploads one directory, with callbacks that return and no cancel request,
  adds exactly one entry, which carries the base name of the directory and the size of the
  directory itself, however many files the directory holds.
\<close>

theorem directory_job_logged_as_one_entry:
  assumes "wf s"
  shows "observe_log (snd (dispatch env direction source destination s)) = observe_log s \<and>
         length (observe_log (transfer_thread env file_list direction s)) \<le>
           length (observe_log s) + length file_list \<and>
         (\<forall>e \<in> set (observe_log (transfer_thread env file_list direction s)).
            e \<in> set (observe_log s) \<or>
            (\<exists>(src, dst) \<in> set file_list. map_option le_filename e = Some (basename src))) \<and>
         (local_fs env source = Some (Dir sz items) \<and> is_connected_to_server env \<and> no_cancel env \<and>
          never_raises (status_callback s) \<and> never_raises (progress_callback s) \<longrightarrow>
          observe_log (transfer_thread env [(source, destination)] ''upload'' s) =
            last100 (observe_log s @
              [Some \<lparr> le_timestamp = j_stamp (job_envs env 0), le_action = ''upload'',
                      le_filename = basename source, le_size = Some sz,
                      le_duration = Some (j_end (job_envs env 0) - j_start (job_envs env 0)) \<rparr>]))"
proof -
  have never: "observe_log (snd (dispatch env direction source destination s)) = observe_log s"
    using fr_dispatch by (rule fr_observe_log)
  have "grown file_list (length file_list) s (transfer_thread env file_list direction s)"
    using assms by (rule transfer_thread_grown)
  then have most: "length (observe_log (transfer_thread env file_list direction s)) \<le>
           length (observe_log s) + length file_list \<and>
         (\<forall>e \<in> set (observe_log (transfer_thread env file_list direction s)).
            e \<in> set (observe_log s) \<or>
            (\<exists>(src, dst) \<in> set file_list. map_option le_filename e = Some (basename src)))"
    by (simp add: grown_def)
  show ?thesis
    using never most directory_batch_entry [OF assms] by blast
qed

theorem directory_job_logged_as_one_entry_witness:
  "wf watched \<and> local_fs pi_env ''d'' = Some (Dir 4096 [(''f.bin'', File 100), (''sub'', Dir 4096 [])]) \<and>
   is_connected_to_server pi_env \<and> no_cancel pi_env \<and>
   never_raises (status_callback watched) \<and> never_raises (progress_callback watched) \<and>
   observe_log (transfer_thread pi_env [(''d'', ''/home/pi/d'')] ''upload'' watched) =
     [Some \<lparr> le_timestamp = ''2024-01-01 00:00:00'', le_action = ''upload'', le_filename = ''d'',
             le_size = Some 4096, le_duration = Some 1 \<rparr>]"
proof -
  have a: "local_fs pi_env ''d'' = Some (Dir 4096 [(''f.bin'', File 100), (''sub'', Dir 4096 [])])"
    by (simp add: pi_env_def)
  have b: "is_connected_to_server pi_env"
    by (simp add: is_connected_to_server_def pi_env_def)
  have c: "never_raises (status_callback watched) \<and> never_raises (progress_callback watched)"
    by (simp add: never_raises_def watched_def set_progress_callbacks_def)
  have d: "job_envs pi_env 0 = calm"
    by (simp add: pi_env_def)
  have "observe_log (transfer_thread pi_env [(''d'', ''/home/pi/d'')] ''upload'' watched) =
        last100 (observe_log watched @
              [Some \<lparr> le_timestamp = j_stamp (job_envs pi_env 0), le_action = ''upload'',
                      le_filename = basename ''d'', le_size = Some 4096,
                      le_duration = Some (j_end (job_envs pi_env 0) - j_start (job_envs pi_env 0)) \<rparr>])"
    using directory_job_logged_as_one_entry [OF wf_watched, of pi_env "''upload''" "''d''" "''/home/pi/d''"
        "[(''d'', ''/home/pi/d'')]" 4096 "[(''f.bin'', File 100), (''sub'', Dir 4096 [])]"]
      a b c no_cancel_pi_env
    by blast
  then have e: "observe_log (transfer_thread pi_env [(''d'', ''/home/pi/d'')] ''upload'' watched) =
     [Some \<lparr> le_timestamp = ''2024-01-01 00:00:00'', le_action = ''upload'', le_filename = ''d'',
             le_size = Some 4096, le_duration = Some 1 \<rparr>]"
    by (simp add: d observe_watched calm_def basename_def last100_def)
  show ?thesis
    using wf_watched a b c e no_cancel_pi_env by simp
qed

text \<open>
  C3 as stated fails.  A batch uploads the directory \<^verbatim>\<open>d\<close>, which holds the file
  \<^verbatim>\<open>f.bin\<close>.  The file is uploaded, and the log gains a single entry, whose file name is
  \<^verbatim>\<open>d\<close>, the name of the directory; no entry is named \<^verbatim>\<open>f.bin\<close>.
\<close>

theorem directory_job_logged_under_directory_name:
  "filter is_operation (trace (transfer_thread pi_env [(''d'', ''/home/pi/d'')] ''upload'' watched)) =
     [Mkdir ''/home/pi/d'', Put ''d/f.bin'' ''/home/pi/d/f.bin'' True, Mkdir ''/home/pi/d/sub''] \<and>
   map (map_option le_filename)
     (observe_log (transfer_thread pi_env [(''d'', ''/home/pi/d'')] ''upload'' watched)) = [Some ''d'']"
  by (simp add: model_defs input_defs Let_def str_nat_1 basename_def path_join_def
        replace_backslash_def observe_log_eq read_list_def list_at_def log_transfer_def)

section \<open>A direction other than upload\<close>










end
